theory Spec2Isabelle
  imports Complex_Main
begin

section \<open>JavaScript numbers\<close>

text \<open>
  The library computes on JavaScript numbers. They are embedded as the reals extended by
  the three special values a JavaScript number can take: \<open>NaN\<close>, \<open>+Infinity\<close> and
  \<open>-Infinity\<close>. Every operation follows the rules of the language for the special
  values (a \<open>NaN\<close> operand gives \<open>NaN\<close>, every comparison with \<open>NaN\<close> is
  false, \<open>x / 0\<close> is an infinity or \<open>NaN\<close>, \<open>Math.asin\<close> outside \<open>[-1, 1]\<close> and
  \<open>Math.sqrt\<close> of a negative number are \<open>NaN\<close>). On finite operands the operations
  of this section are the exact real ones, and the sign of zero is not part of the
  embedding. The rounding of doubles is added in the section on double precision, with
  \<open>bounds\<close> on doubles.
\<close>

datatype jsnum = NaN | PInf | NInf | Fin real

definition isNaN :: "jsnum \<Rightarrow> bool" where
  "isNaN v = (v = NaN)"

fun nneg :: "jsnum \<Rightarrow> jsnum" where
  "nneg NaN = NaN"
| "nneg PInf = NInf"
| "nneg NInf = PInf"
| "nneg (Fin a) = Fin (- a)"

fun nadd :: "jsnum \<Rightarrow> jsnum \<Rightarrow> jsnum" where
  "nadd (Fin a) (Fin b) = Fin (a + b)"
| "nadd NaN _ = NaN"
| "nadd _ NaN = NaN"
| "nadd PInf NInf = NaN"
| "nadd NInf PInf = NaN"
| "nadd PInf _ = PInf"
| "nadd _ PInf = PInf"
| "nadd NInf _ = NInf"
| "nadd _ NInf = NInf"

definition nsub :: "jsnum \<Rightarrow> jsnum \<Rightarrow> jsnum" where
  "nsub a b = nadd a (nneg b)"

fun nmul :: "jsnum \<Rightarrow> jsnum \<Rightarrow> jsnum" where
  "nmul (Fin a) (Fin b) = Fin (a * b)"
| "nmul NaN _ = NaN"
| "nmul _ NaN = NaN"
| "nmul (Fin a) PInf = (if a = 0 then NaN else if 0 < a then PInf else NInf)"
| "nmul (Fin a) NInf = (if a = 0 then NaN else if 0 < a then NInf else PInf)"
| "nmul PInf (Fin b) = (if b = 0 then NaN else if 0 < b then PInf else NInf)"
| "nmul NInf (Fin b) = (if b = 0 then NaN else if 0 < b then NInf else PInf)"
| "nmul PInf PInf = PInf"
| "nmul PInf NInf = NInf"
| "nmul NInf PInf = NInf"
| "nmul NInf NInf = PInf"

fun ndiv :: "jsnum \<Rightarrow> jsnum \<Rightarrow> jsnum" where
  "ndiv (Fin a) (Fin b) =
     (if b = 0 then (if a = 0 then NaN else if 0 < a then PInf else NInf)
      else Fin (a / b))"
| "ndiv NaN _ = NaN"
| "ndiv _ NaN = NaN"
| "ndiv (Fin a) PInf = Fin 0"
| "ndiv (Fin a) NInf = Fin 0"
| "ndiv PInf (Fin b) = (if 0 \<le> b then PInf else NInf)"
| "ndiv NInf (Fin b) = (if 0 \<le> b then NInf else PInf)"
| "ndiv PInf PInf = NaN"
| "ndiv PInf NInf = NaN"
| "ndiv NInf PInf = NaN"
| "ndiv NInf NInf = NaN"

text \<open>The comparison operators \<open><\<close>, \<open><=\<close>, \<open>>\<close>, \<open>>=\<close>.\<close>

fun nlt :: "jsnum \<Rightarrow> jsnum \<Rightarrow> bool" where
  "nlt (Fin a) (Fin b) = (a < b)"
| "nlt NaN _ = False"
| "nlt _ NaN = False"
| "nlt NInf NInf = False"
| "nlt NInf _ = True"
| "nlt PInf _ = False"
| "nlt (Fin a) PInf = True"
| "nlt (Fin a) NInf = False"

fun nle :: "jsnum \<Rightarrow> jsnum \<Rightarrow> bool" where
  "nle (Fin a) (Fin b) = (a \<le> b)"
| "nle NaN _ = False"
| "nle _ NaN = False"
| "nle NInf _ = True"
| "nle PInf PInf = True"
| "nle PInf _ = False"
| "nle (Fin a) PInf = True"
| "nle (Fin a) NInf = False"

definition ngt :: "jsnum \<Rightarrow> jsnum \<Rightarrow> bool" where
  "ngt a b = nlt b a"

definition nge :: "jsnum \<Rightarrow> jsnum \<Rightarrow> bool" where
  "nge a b = nle b a"

text \<open>\<open>Number.isFinite\<close>: neither \<open>NaN\<close> nor an infinity.\<close>

fun isFinite :: "jsnum \<Rightarrow> bool" where
  "isFinite (Fin a) = True"
| "isFinite _ = False"

text \<open>The functions of \<open>Math\<close> the library calls.\<close>

definition Math_PI :: jsnum where
  "Math_PI = Fin pi"

fun Math_sin :: "jsnum \<Rightarrow> jsnum" where
  "Math_sin (Fin a) = Fin (sin a)"
| "Math_sin _ = NaN"

fun Math_cos :: "jsnum \<Rightarrow> jsnum" where
  "Math_cos (Fin a) = Fin (cos a)"
| "Math_cos _ = NaN"

fun Math_asin :: "jsnum \<Rightarrow> jsnum" where
  "Math_asin (Fin a) = (if - 1 \<le> a \<and> a \<le> 1 then Fin (arcsin a) else NaN)"
| "Math_asin _ = NaN"

fun Math_sqrt :: "jsnum \<Rightarrow> jsnum" where
  "Math_sqrt (Fin a) = (if 0 \<le> a then Fin (sqrt a) else NaN)"
| "Math_sqrt PInf = PInf"
| "Math_sqrt _ = NaN"

fun Math_abs :: "jsnum \<Rightarrow> jsnum" where
  "Math_abs (Fin a) = Fin \<bar>a\<bar>"
| "Math_abs NaN = NaN"
| "Math_abs _ = PInf"

definition Math_max :: "jsnum \<Rightarrow> jsnum \<Rightarrow> jsnum" where
  "Math_max a b = (if a = NaN \<or> b = NaN then NaN else if nlt a b then b else a)"

definition Math_min :: "jsnum \<Rightarrow> jsnum \<Rightarrow> jsnum" where
  "Math_min a b = (if a = NaN \<or> b = NaN then NaN else if nlt b a then b else a)"

text \<open>
  \<open>Math.atan2(y, x)\<close>: the angle of the point \<open>(x, y)\<close>, in \<open>[-\<pi>, \<pi>]\<close>; at the origin
  it is \<open>0\<close> (the value for positive zeros).
\<close>

definition atan2_real :: "real \<Rightarrow> real \<Rightarrow> real" where
  "atan2_real y x =
     (if 0 < x then arctan (y / x)
      else if x < 0 then (if 0 \<le> y then arctan (y / x) + pi else arctan (y / x) - pi)
      else if 0 < y then pi / 2
      else if y < 0 then - (pi / 2)
      else 0)"

fun Math_atan2 :: "jsnum \<Rightarrow> jsnum \<Rightarrow> jsnum" where
  "Math_atan2 (Fin y) (Fin x) = Fin (atan2_real y x)"
| "Math_atan2 NaN _ = NaN"
| "Math_atan2 _ NaN = NaN"
| "Math_atan2 PInf (Fin x) = Fin (pi / 2)"
| "Math_atan2 NInf (Fin x) = Fin (- (pi / 2))"
| "Math_atan2 PInf PInf = Fin (pi / 4)"
| "Math_atan2 NInf PInf = Fin (- (pi / 4))"
| "Math_atan2 PInf NInf = Fin (3 * pi / 4)"
| "Math_atan2 NInf NInf = Fin (- (3 * pi / 4))"
| "Math_atan2 (Fin y) PInf = Fin 0"
| "Math_atan2 (Fin y) NInf = (if 0 \<le> y then Fin pi else Fin (- pi))"

section \<open>The data of \<open>IgeoInterfaces.ts\<close>\<close>

record Ilatlng =
  lat :: jsnum
  lng :: jsnum

record Ibounds =
  minLat :: jsnum
  minLng :: jsnum
  maxLat :: jsnum
  maxLng :: jsnum

text \<open>
  \<open>Ilatlngxyz\<close>: a point in radians with its cartesian coordinates; the fields \<open>x\<close>,
  \<open>y\<close>, \<open>z\<close> of the source are \<open>cx\<close>, \<open>cy\<close>, \<open>cz\<close> here.
\<close>

record Ilatlngxyz = Ilatlng +
  cx :: jsnum
  cy :: jsnum
  cz :: jsnum

record IdistanceCenterResult =
  point :: Ilatlng
  avgDist :: jsnum
  totalDist :: jsnum

section \<open>The class \<open>PlasticGeoDistance\<close>\<close>

text \<open>An instance: the fields \<open>_units\<close> and \<open>_earthRadius\<close> the constructor sets.\<close>

record PlasticGeoDistance =
  units :: string
  earthRadius :: jsnum

text \<open>
  \<open>String.prototype.toUpperCase\<close> on the characters of a \<open>string\<close>: the letters
  \<open>a\<close> to \<open>z\<close> go to \<open>A\<close> to \<open>Z\<close>, every other character stays.
\<close>

definition toUpperCase_char :: "char \<Rightarrow> char" where
  "toUpperCase_char c =
     (case map_of (zip ''abcdefghijklmnopqrstuvwxyz'' ''ABCDEFGHIJKLMNOPQRSTUVWXYZ'') c of
        None \<Rightarrow> c
      | Some u \<Rightarrow> u)"

definition toUpperCase :: "string \<Rightarrow> string" where
  "toUpperCase s = map toUpperCase_char s"

definition substring :: "string \<Rightarrow> nat \<Rightarrow> nat \<Rightarrow> string" where
  "substring s i j = take (j - i) (drop i s)"

text \<open>
  The constructor. Its argument is optional: \<open>None\<close> is a call without the argument.
  \<open>units ? ... : "M"\<close> takes the second branch for an absent argument and for the empty
  string.
\<close>

definition constructor :: "string option \<Rightarrow> PlasticGeoDistance" where
  "constructor u =
     (let us = (case u of
                  None \<Rightarrow> ''M''
                | Some s \<Rightarrow>
                    if s \<noteq> [] then (if substring (toUpperCase s) 0 1 = ''K'' then ''K'' else ''M'')
                    else ''M'')
      in \<lparr> units = us,
           earthRadius = (if us = ''K'' then Fin 6371 else Fin (3958756 / 1000)) \<rparr>)"

definition toRadians :: "jsnum \<Rightarrow> jsnum" where
  "toRadians degrees = ndiv (nmul degrees Math_PI) (Fin 180)"

definition toDegrees :: "jsnum \<Rightarrow> jsnum" where
  "toDegrees rad = ndiv (nmul rad (Fin 180)) Math_PI"

definition geoToRadians :: "'a Ilatlng_scheme \<Rightarrow> Ilatlng" where
  "geoToRadians geo = \<lparr> lat = toRadians (lat geo), lng = toRadians (lng geo) \<rparr>"

definition geoToDegrees :: "'a Ilatlng_scheme \<Rightarrow> Ilatlng" where
  "geoToDegrees geoR = \<lparr> lat = toDegrees (lat geoR), lng = toDegrees (lng geoR) \<rparr>"

definition bounds :: "PlasticGeoDistance \<Rightarrow> jsnum \<Rightarrow> 'a Ilatlng_scheme \<Rightarrow> Ibounds" where
  "bounds this dst pt =
     (let pA = geoToRadians pt;
          dist = dst
      in if isNaN dist \<or> nle dist (Fin 0) then
           \<lparr> minLat = lat pA, minLng = lng pA, maxLat = lat pA, maxLng = lng pA \<rparr>
         else
           let EARTH_RADIUS = earthRadius this;
               MIN_LAT = toRadians (Fin (- 90));
               MAX_LAT = toRadians (Fin 90);
               MIN_LON = toRadians (Fin (- 180));
               MAX_LON = toRadians (Fin 180);
               radDist = ndiv dist EARTH_RADIUS;
               minLat0 = nsub (lat pA) radDist;
               maxLat0 = nadd (lat pA) radDist;
               deltaLng = Math_asin (ndiv (Math_sin radDist) (Math_cos (lat pA)))
           in if ngt minLat0 MIN_LAT \<and> nlt maxLat0 MAX_LAT then
                let minLon0 = nsub (lng pA) deltaLng;
                    maxLon0 = nadd (lng pA) deltaLng;
                    minLon = (if nlt minLon0 MIN_LON
                              then nadd minLon0 (nmul (Fin 2) Math_PI) else minLon0);
                    maxLon = (if ngt maxLon0 MAX_LON
                              then nsub maxLon0 (nmul (Fin 2) Math_PI) else maxLon0)
                in \<lparr> minLat = toDegrees minLat0, minLng = toDegrees minLon,
                     maxLat = toDegrees maxLat0, maxLng = toDegrees maxLon \<rparr>
              else
                let minLat1 = Math_max minLat0 MIN_LAT;
                    maxLat1 = Math_min maxLat0 MAX_LAT;
                    minLon = MIN_LON;
                    maxLon = MAX_LON
                in \<lparr> minLat = toDegrees minLat1, minLng = toDegrees minLon,
                     maxLat = toDegrees maxLat1, maxLng = toDegrees maxLon \<rparr>)"

definition radianDistance :: "'a Ilatlng_scheme \<Rightarrow> 'b Ilatlng_scheme \<Rightarrow> jsnum" where
  "radianDistance pA pB =
     (let dLat = nsub (lat pB) (lat pA);
          dLon = nsub (lng pB) (lng pA);
          a = nadd (nmul (Math_sin (ndiv dLat (Fin 2))) (Math_sin (ndiv dLat (Fin 2))))
                   (nmul (nmul (nmul (Math_cos (lat pA)) (Math_cos (lat pB)))
                               (Math_sin (ndiv dLon (Fin 2))))
                         (Math_sin (ndiv dLon (Fin 2))))
      in nmul (Fin 2) (Math_atan2 (Math_sqrt a) (Math_sqrt (nsub (Fin 1) a))))"

definition distance :: "PlasticGeoDistance \<Rightarrow> 'a Ilatlng_scheme \<Rightarrow> 'b Ilatlng_scheme \<Rightarrow> jsnum" where
  "distance this point1 point2 =
     (let R = earthRadius this;
          pA = geoToRadians point1;
          pB = geoToRadians point2;
          c = radianDistance pA pB;
          d = nmul R c
      in if isNaN d then Fin 0 else d)"

definition isInBounds :: "'a Ilatlng_scheme \<Rightarrow> Ibounds \<Rightarrow> bool" where
  "isInBounds pt bnds =
     ((nge (lat pt) (minLat bnds) \<and> nle (lat pt) (maxLat bnds)) \<and>
      (if ngt (minLng bnds) (maxLng bnds)
       then (nge (lng pt) (minLng bnds) \<or> nle (lng pt) (maxLng bnds))
       else (nge (lng pt) (minLng bnds) \<and> nle (lng pt) (maxLng bnds))))"

definition getBoundsCheckFunction ::
  "PlasticGeoDistance \<Rightarrow> jsnum \<Rightarrow> 'a Ilatlng_scheme \<Rightarrow> (Ilatlng \<Rightarrow> bool)" where
  "getBoundsCheckFunction this dst pt =
     (let m = bounds this dst pt in (\<lambda>latlng. isInBounds latlng m))"

text \<open>\<open>_toCenteringArray\<close>: one entry is pushed for each point, in order.\<close>

definition toCenteringArray :: "'a Ilatlng_scheme list \<Rightarrow> Ilatlngxyz list" where
  "toCenteringArray sourceArray =
     map (\<lambda>p. let latr = toRadians (lat p);
                  lngr = toRadians (lng p)
              in \<lparr> lat = latr, lng = lngr,
                   cx = nmul (Math_cos latr) (Math_cos lngr),
                   cy = nmul (Math_cos latr) (Math_sin lngr),
                   cz = Math_sin latr \<rparr>) sourceArray"

definition cartesianToRadians :: "Ilatlngxyz \<Rightarrow> Ilatlngxyz" where
  "cartesianToRadians cartesianPoint =
     \<lparr> lat = Math_atan2 (cz cartesianPoint)
               (Math_sqrt (nadd (nmul (cx cartesianPoint) (cx cartesianPoint))
                                (nmul (cy cartesianPoint) (cy cartesianPoint)))),
       lng = Math_atan2 (cy cartesianPoint) (cx cartesianPoint),
       cx = cx cartesianPoint,
       cy = cy cartesianPoint,
       cz = cz cartesianPoint \<rparr>"

definition computeAverageCoordinates :: "Ilatlngxyz list \<Rightarrow> Ilatlngxyz" where
  "computeAverageCoordinates points =
     (let result = \<lparr> lat = Fin 0, lng = Fin 0, cx = Fin 0, cy = Fin 0, cz = Fin 0 \<rparr>
      in if 0 < length points then
           let summed = foldl (\<lambda>res p. res \<lparr> cx := nadd (cx res) (cx p),
                                             cy := nadd (cy res) (cy p),
                                             cz := nadd (cz res) (cz p) \<rparr>) result points;
               n = Fin (real (length points));
               averaged = summed \<lparr> cx := ndiv (cx summed) n,
                                   cy := ndiv (cy summed) n,
                                   cz := ndiv (cz summed) n \<rparr>
           in cartesianToRadians averaged
         else result)"

definition computeMidpoint :: "'a Ilatlng_scheme list \<Rightarrow> Ilatlng" where
  "computeMidpoint points =
     (let m = computeAverageCoordinates (toCenteringArray points) in geoToDegrees m)"

definition sumRadianDistance :: "'a Ilatlng_scheme \<Rightarrow> 'b Ilatlng_scheme list \<Rightarrow> jsnum" where
  "sumRadianDistance fromPoint toPoints =
     foldl (\<lambda>result toPoint. nadd result (radianDistance fromPoint toPoint)) (Fin 0) toPoints"

definition distanceToPointList ::
  "PlasticGeoDistance \<Rightarrow> 'a Ilatlng_scheme \<Rightarrow> 'b Ilatlng_scheme list \<Rightarrow> IdistanceCenterResult" where
  "distanceToPointList this fromPoint toPoints =
     (let fp = geoToRadians fromPoint;
          pCA = toCenteringArray toPoints;
          result = \<lparr> point = Ilatlng.truncate fromPoint,
                     avgDist = Fin 0,
                     totalDist = sumRadianDistance
                       \<lparr> lat = lat fp, lng = lng fp, cx = Fin 0, cy = Fin 0, cz = Fin 0 \<rparr> pCA \<rparr>;
          result1 = result \<lparr> point := geoToDegrees (point result) \<rparr>;
          result2 = result1 \<lparr> totalDist := nmul (totalDist result1) (earthRadius this) \<rparr>
      in result2 \<lparr> avgDist := ndiv (totalDist result2) (Fin (real (length toPoints))) \<rparr>)"

text \<open>
  \<open>_testCandidateCenterPoints\<close>: the result starts as a copy of the existing best and
  takes every candidate whose sum of distances is strictly less than the result's.
\<close>

definition testCandidateCenterPoints ::
  "'a Ilatlng_scheme list \<Rightarrow> Ilatlngxyz list \<Rightarrow> IdistanceCenterResult \<Rightarrow> IdistanceCenterResult" where
  "testCandidateCenterPoints candidates points existingBest =
     foldl (\<lambda>result cp.
              let dist = sumRadianDistance cp points
              in if nlt dist (totalDist result)
                 then result \<lparr> point := \<lparr> lat = lat cp, lng = lng cp \<rparr>, totalDist := dist \<rparr>
                 else result)
           \<lparr> point = \<lparr> lat = lat (point existingBest), lng = lng (point existingBest) \<rparr>,
             avgDist = avgDist existingBest,
             totalDist = totalDist existingBest \<rparr>
           candidates"

definition destinationPointRadians :: "'a Ilatlng_scheme \<Rightarrow> jsnum \<Rightarrow> jsnum \<Rightarrow> Ilatlng" where
  "destinationPointRadians start bearing dst =
     (let lat0 = Math_asin (nadd (nmul (Math_sin (lat start)) (Math_cos dst))
                                 (nmul (nmul (Math_cos (lat start)) (Math_sin dst))
                                       (Math_cos bearing)));
          lng0 = nadd (lng start)
                   (Math_atan2 (nmul (nmul (Math_sin bearing) (Math_sin dst))
                                     (Math_cos (lat start)))
                               (nsub (Math_cos dst)
                                     (nmul (Math_sin (lat start)) (Math_sin lat0))));
          over = ngt (Math_abs lat0) (ndiv Math_PI (Fin 2));
          lat1 = (if over
                  then nsub (nsub Math_PI lat0)
                         (nmul (nmul (Fin 2) Math_PI)
                               (if nlt lat0 (ndiv (nneg Math_PI) (Fin 2)) then Fin 1 else Fin 0))
                  else lat0);
          lng1 = (if over then nsub lng0 Math_PI else lng0);
          lng2 = (if ngt lng1 Math_PI then nsub lng1 (nmul (Fin 2) Math_PI)
                  else if nlt lng1 (nneg Math_PI) then nadd lng1 (nmul (Fin 2) Math_PI)
                  else lng1)
      in \<lparr> lat = lat1, lng = lng2 \<rparr>)"

text \<open>
  The eight candidates of one ring: \<open>for (let i = 0; i < 8; i++)\<close> pushes the
  destination at bearing \<open>Math.PI / 4 * i\<close>.
\<close>

definition candidatePts :: "Ilatlng \<Rightarrow> jsnum \<Rightarrow> Ilatlngxyz list" where
  "candidatePts center testRadius =
     map (\<lambda>i. let dp = destinationPointRadians center
                          (nmul (ndiv Math_PI (Fin 4)) (Fin (real i))) testRadius
              in \<lparr> lat = lat dp, lng = lng dp, cx = Fin 0, cy = Fin 0, cz = Fin 0 \<rparr>) [0 ..< 8]"

text \<open>
  The inner loop \<open>while (currentBest.totalDist < cbd)\<close> of \<open>computeMinimumDistancePoint\<close>.
  Nothing in the source bounds its iterations, so it is a partial function: \<open>None\<close> is
  a loop that never ends. The natural number of the state counts the calls of
  \<open>_sumRadianDistance\<close> made so far (one for each candidate handed to
  \<open>_testCandidateCenterPoints\<close>); it is not a variable of the source.
\<close>

partial_function (option) ringWhile ::
  "Ilatlngxyz list \<Rightarrow> jsnum \<Rightarrow> IdistanceCenterResult \<Rightarrow> jsnum \<Rightarrow> nat
     \<Rightarrow> (IdistanceCenterResult \<times> nat) option" where
  "ringWhile pCA testRadius currentBest cbd evals =
     (if nlt (totalDist currentBest) cbd then
        let cands = candidatePts (point currentBest) testRadius;
            cbd1 = totalDist currentBest;
            currentBest1 = testCandidateCenterPoints cands pCA currentBest
        in ringWhile pCA testRadius currentBest1 cbd1 (evals + length cands)
      else Some (currentBest, evals))"

text \<open>The outer loop \<open>for (let r = 0; r < 17; r++)\<close>.\<close>

function radiusFor ::
  "Ilatlngxyz list \<Rightarrow> nat \<Rightarrow> jsnum \<Rightarrow> IdistanceCenterResult \<Rightarrow> nat
     \<Rightarrow> (IdistanceCenterResult \<times> nat) option" where
  "radiusFor pCA r testRadius currentBest evals =
     (if r < 17 then
        let cbd = nadd (Fin 200000) (totalDist currentBest)
        in case ringWhile pCA testRadius currentBest cbd evals of
             None \<Rightarrow> None
           | Some (currentBest1, evals1) \<Rightarrow>
               radiusFor pCA (r + 1) (ndiv testRadius (Fin 2)) currentBest1 evals1
      else Some (currentBest, evals))"
  by pat_completeness auto
termination
  by (relation "measure (\<lambda>(pCA, r, testRadius, currentBest, evals). 17 - r)") auto

declare radiusFor.simps [simp del]

text \<open>
  \<open>computeMinimumDistancePoint\<close> with the count of the calls of \<open>_sumRadianDistance\<close>
  beside its result. The point of \<open>currentBest\<close> is first the midpoint, an
  \<open>Ilatlngxyz\<close>, and from the first call of \<open>_testCandidateCenterPoints\<close> on a plain
  \<open>{lat, lng}\<close>; only \<open>lat\<close> and \<open>lng\<close> of it are ever read.
\<close>

definition computeMinimumDistancePoint_counted ::
  "PlasticGeoDistance \<Rightarrow> 'a Ilatlng_scheme list \<Rightarrow> (IdistanceCenterResult \<times> nat) option" where
  "computeMinimumDistancePoint_counted this points =
     (let result = \<lparr> point = \<lparr> lat = Fin 0, lng = Fin 0 \<rparr>, avgDist = Fin 0, totalDist = Fin 0 \<rparr>
      in if length points = 0 then Some (result, 0)
         else if length points = 1 then
           Some (result \<lparr> point := \<lparr> lat = lat (points ! 0), lng = lng (points ! 0) \<rparr> \<rparr>, 0)
         else
           let pCA = toCenteringArray points;
               midPt = computeAverageCoordinates pCA;
               currentBest0 = \<lparr> point = Ilatlng.truncate midPt, avgDist = Fin 0,
                                totalDist = sumRadianDistance midPt pCA \<rparr>;
               currentBest1 = testCandidateCenterPoints pCA pCA currentBest0;
               testRadius = ndiv Math_PI (Fin 2)
           in case radiusFor pCA 0 testRadius currentBest1 (1 + length pCA) of
                None \<Rightarrow> None
              | Some (currentBest, evals) \<Rightarrow>
                  let result1 = result \<lparr> point := geoToDegrees (point currentBest) \<rparr>;
                      result2 = result1 \<lparr> totalDist :=
                                  nmul (totalDist currentBest) (earthRadius this) \<rparr>
                  in Some (result2 \<lparr> avgDist :=
                             ndiv (totalDist result2) (Fin (real (length points))) \<rparr>, evals))"

definition computeMinimumDistancePoint ::
  "PlasticGeoDistance \<Rightarrow> 'a Ilatlng_scheme list \<Rightarrow> IdistanceCenterResult option" where
  "computeMinimumDistancePoint this points =
     map_option fst (computeMinimumDistancePoint_counted this points)"

section \<open>Double precision\<close>

text \<open>
  A JavaScript number is a double: the result of \<open>+\<close>, \<open>-\<close>, \<open>*\<close> and \<open>/\<close> is the exact
  result rounded to the nearest double, ties to the even significand. \<open>rne\<close> rounds a
  real to the nearest integer, ties to even; \<open>round64\<close> rounds a real to the nearest
  double: the significand has 53 bits, the exponent is at least \<open>-1022\<close> (below it the
  doubles are subnormal), and a rounded value of magnitude \<open>2^1024\<close> or more is an
  infinity.
\<close>

definition rne :: "real \<Rightarrow> int" where
  "rne y =
     (let f = \<lfloor>y\<rfloor>
      in if y - of_int f < 1 / 2 then f
         else if 1 / 2 < y - of_int f then f + 1
         else if even f then f else f + 1)"

definition round64 :: "real \<Rightarrow> jsnum" where
  "round64 x =
     (if x = 0 then Fin 0
      else
        let e = max \<lfloor>log 2 \<bar>x\<bar>\<rfloor> (- 1022);
            q = 2 powr (of_int e - 52);
            y = of_int (rne (x / q)) * q
        in if 2 powr 1024 \<le> \<bar>y\<bar> then (if 0 < x then PInf else NInf) else Fin y)"

fun rnd :: "jsnum \<Rightarrow> jsnum" where
  "rnd (Fin a) = round64 a"
| "rnd NaN = NaN"
| "rnd PInf = PInf"
| "rnd NInf = NInf"

text \<open>The four operations on doubles.\<close>

definition dadd :: "jsnum \<Rightarrow> jsnum \<Rightarrow> jsnum" where
  "dadd a b = rnd (nadd a b)"

definition dsub :: "jsnum \<Rightarrow> jsnum \<Rightarrow> jsnum" where
  "dsub a b = rnd (nsub a b)"

definition dmul :: "jsnum \<Rightarrow> jsnum \<Rightarrow> jsnum" where
  "dmul a b = rnd (nmul a b)"

definition ddiv :: "jsnum \<Rightarrow> jsnum \<Rightarrow> jsnum" where
  "ddiv a b = rnd (ndiv a b)"

text \<open>\<open>Math.PI\<close> is the double nearest to \<open>\<pi>\<close>, \<open>3.141592653589793\<close>.\<close>

definition Math_PI64 :: jsnum where
  "Math_PI64 = Fin (884279719003555 / 281474976710656)"

text \<open>
  The language leaves the precision of \<open>Math.sin\<close>, \<open>Math.cos\<close>, \<open>Math.asin\<close>,
  \<open>Math.sqrt\<close> and \<open>Math.atan2\<close> to the implementation, so on doubles they are a
  parameter: the \<open>Math\<close> object of the engine that runs the library.
\<close>

record Math64 =
  sin64 :: "jsnum \<Rightarrow> jsnum"
  cos64 :: "jsnum \<Rightarrow> jsnum"
  asin64 :: "jsnum \<Rightarrow> jsnum"
  sqrt64 :: "jsnum \<Rightarrow> jsnum"
  atan2_64 :: "jsnum \<Rightarrow> jsnum \<Rightarrow> jsnum"

text \<open>
  \<open>toRadians\<close>, \<open>toDegrees\<close>, \<open>geoToRadians\<close> and \<open>bounds\<close> on doubles: the same
  expressions, every operation rounded. The literals \<open>180\<close>, \<open>90\<close> and \<open>2\<close> are doubles;
  the radius of the instance is the double nearest to the literal of the constructor.
\<close>

definition toRadians64 :: "jsnum \<Rightarrow> jsnum" where
  "toRadians64 degrees = ddiv (dmul degrees Math_PI64) (Fin 180)"

definition toDegrees64 :: "jsnum \<Rightarrow> jsnum" where
  "toDegrees64 rad = ddiv (dmul rad (Fin 180)) Math_PI64"

definition geoToRadians64 :: "'a Ilatlng_scheme \<Rightarrow> Ilatlng" where
  "geoToRadians64 geo = \<lparr> lat = toRadians64 (lat geo), lng = toRadians64 (lng geo) \<rparr>"

definition bounds64 ::
  "Math64 \<Rightarrow> PlasticGeoDistance \<Rightarrow> jsnum \<Rightarrow> 'a Ilatlng_scheme \<Rightarrow> Ibounds" where
  "bounds64 math this dst pt =
     (let pA = geoToRadians64 pt;
          dist = dst
      in if isNaN dist \<or> nle dist (Fin 0) then
           \<lparr> minLat = lat pA, minLng = lng pA, maxLat = lat pA, maxLng = lng pA \<rparr>
         else
           let EARTH_RADIUS = rnd (earthRadius this);
               MIN_LAT = toRadians64 (Fin (- 90));
               MAX_LAT = toRadians64 (Fin 90);
               MIN_LON = toRadians64 (Fin (- 180));
               MAX_LON = toRadians64 (Fin 180);
               radDist = ddiv dist EARTH_RADIUS;
               minLat0 = dsub (lat pA) radDist;
               maxLat0 = dadd (lat pA) radDist;
               deltaLng = asin64 math (ddiv (sin64 math radDist) (cos64 math (lat pA)))
           in if ngt minLat0 MIN_LAT \<and> nlt maxLat0 MAX_LAT then
                let minLon0 = dsub (lng pA) deltaLng;
                    maxLon0 = dadd (lng pA) deltaLng;
                    minLon = (if nlt minLon0 MIN_LON
                              then dadd minLon0 (dmul (Fin 2) Math_PI64) else minLon0);
                    maxLon = (if ngt maxLon0 MAX_LON
                              then dsub maxLon0 (dmul (Fin 2) Math_PI64) else maxLon0)
                in \<lparr> minLat = toDegrees64 minLat0, minLng = toDegrees64 minLon,
                     maxLat = toDegrees64 maxLat0, maxLng = toDegrees64 maxLon \<rparr>
              else
                let minLat1 = Math_max minLat0 MIN_LAT;
                    maxLat1 = Math_min maxLat0 MAX_LAT;
                    minLon = MIN_LON;
                    maxLon = MAX_LON
                in \<lparr> minLat = toDegrees64 minLat1, minLng = toDegrees64 minLon,
                     maxLat = toDegrees64 maxLat1, maxLng = toDegrees64 maxLon \<rparr>)"















section \<open>Notions of the proofs\<close>

text \<open>The argument of the square roots of the haversine formula, on reals.\<close>

definition hav_arg :: "real \<Rightarrow> real \<Rightarrow> real \<Rightarrow> real \<Rightarrow> real" where
  "hav_arg p1 l1 p2 l2 =
     sin ((p2 - p1) / 2) * sin ((p2 - p1) / 2)
     + cos p1 * cos p2 * sin ((l2 - l1) / 2) * sin ((l2 - l1) / 2)"

text \<open>The angle between two points in radians, on reals.\<close>

definition central_angle :: "real \<Rightarrow> real \<Rightarrow> real \<Rightarrow> real \<Rightarrow> real" where
  "central_angle p1 l1 p2 l2 =
     2 * atan2_real (sqrt (hav_arg p1 l1 p2 l2)) (sqrt (1 - hav_arg p1 l1 p2 l2))"

text \<open>
  A total of distances improves on another one when it is the same number or strictly
  less, as \<open><\<close> of the language has it: what every step of the search keeps.
\<close>

definition improvesOn :: "jsnum \<Rightarrow> jsnum \<Rightarrow> bool" where
  "improvesOn a b = (a = b \<or> nlt a b)"


section \<open>Properties\<close>

subsection \<open>Conversions\<close>

lemma toDegrees_Fin: "toDegrees (Fin a) = Fin (a * 180 / pi)"
  by (simp add: toDegrees_def Math_PI_def)

lemma toRadians_Fin: "toRadians (Fin a) = Fin (a * pi / 180)"
  by (simp add: toRadians_def Math_PI_def)

lemma toDegrees_changes: "a \<noteq> 0 \<Longrightarrow> a * 180 / pi \<noteq> a"
proof
  assume a: "a \<noteq> 0" and e: "a * 180 / pi = a"
  from e have "a * 180 = a * pi" by (simp add: field_simps)
  with a have "pi = 180" by simp
  moreover have "pi < 4" by (rule pi_less_4)
  ultimately show False by simp
qed

subsection \<open>The constructor\<close>

lemma toUpperCase_char_K:
  "toUpperCase_char c = CHR ''K'' \<longleftrightarrow> c = CHR ''k'' \<or> c = CHR ''K''"
  by (auto simp add: toUpperCase_char_def split: if_splits)

lemma substring_first:
  "substring (toUpperCase s) 0 (Suc 0) = ''K'' \<longleftrightarrow> s \<noteq> [] \<and> toUpperCase_char (hd s) = CHR ''K''"
  by (cases s) (simp_all add: substring_def toUpperCase_def)

text \<open>
  C8. The constructor selects kilometers, with the radius 6371, exactly when the unit
  indicator is present, non-empty and its first character upper-cases to \<open>K\<close>; an absent
  indicator, an empty one and every other one select miles, with the radius 3958.756.
  \<open>distance\<close> multiplies the angle by that radius of the instance.
\<close>

theorem constructor_selects_units:
  "units (constructor u) =
     (if (case u of None \<Rightarrow> False | Some s \<Rightarrow> s \<noteq> [] \<and> toUpperCase_char (hd s) = CHR ''K'')
      then ''K'' else ''M'')
   \<and> earthRadius (constructor u) =
     (if (case u of None \<Rightarrow> False | Some s \<Rightarrow> s \<noteq> [] \<and> toUpperCase_char (hd s) = CHR ''K'')
      then Fin 6371 else Fin (3958756 / 1000))
   \<and> distance (constructor u) p q =
     (let d = nmul (earthRadius (constructor u)) (radianDistance (geoToRadians p) (geoToRadians q))
      in if d = NaN then Fin 0 else d)"
  by (cases u) (simp_all add: constructor_def substring_first distance_def isNaN_def Let_def)

theorem constructor_selects_units_witness:
  "earthRadius (constructor (Some ''km'')) = Fin 6371
   \<and> earthRadius (constructor (Some ''Kilometers'')) = Fin 6371
   \<and> earthRadius (constructor (Some ''miles'')) = Fin (3958756 / 1000)
   \<and> earthRadius (constructor (Some '''')) = Fin (3958756 / 1000)
   \<and> earthRadius (constructor None) = Fin (3958756 / 1000)"
  using constructor_selects_units [of "Some ''km''" "\<lparr> lat = Fin 0, lng = Fin 0 \<rparr>" "\<lparr> lat = Fin 0, lng = Fin 0 \<rparr>"]
    constructor_selects_units [of "Some ''Kilometers''" "\<lparr> lat = Fin 0, lng = Fin 0 \<rparr>" "\<lparr> lat = Fin 0, lng = Fin 0 \<rparr>"]
    constructor_selects_units [of "Some ''miles''" "\<lparr> lat = Fin 0, lng = Fin 0 \<rparr>" "\<lparr> lat = Fin 0, lng = Fin 0 \<rparr>"]
    constructor_selects_units [of "Some ''''" "\<lparr> lat = Fin 0, lng = Fin 0 \<rparr>" "\<lparr> lat = Fin 0, lng = Fin 0 \<rparr>"]
    constructor_selects_units [of None "\<lparr> lat = Fin 0, lng = Fin 0 \<rparr>" "\<lparr> lat = Fin 0, lng = Fin 0 \<rparr>"]
  by (simp add: toUpperCase_char_def)

subsection \<open>Distance\<close>

lemma nsub_swap: "nsub b a = nneg (nsub a b)"
  by (cases a; cases b) (simp_all add: nsub_def)

lemma ndiv_nneg: "ndiv (nneg v) (Fin 2) = nneg (ndiv v (Fin 2))"
  by (cases v) simp_all

lemma Math_sin_nneg: "Math_sin (nneg v) = nneg (Math_sin v)"
  by (cases v) simp_all

lemma nmul_nneg_nneg: "nmul (nneg v) (nneg v) = nmul v v"
  by (cases v) simp_all

lemma nmul_nmul_nneg: "nmul (nmul c (nneg v)) (nneg v) = nmul (nmul c v) v"
  by (cases c; cases v) simp_all

lemma nmul_commute: "nmul a b = nmul b a"
  by (cases a; cases b) simp_all

lemma radianDistance_commute: "radianDistance pA pB = radianDistance pB pA"
  unfolding radianDistance_def Let_def
  by (simp add: nsub_swap [of "lat pA" "lat pB"] nsub_swap [of "lng pA" "lng pB"]
      ndiv_nneg Math_sin_nneg nmul_nneg_nneg nmul_nmul_nneg
      nmul_commute [of "Math_cos (lat pA)" "Math_cos (lat pB)"])

text \<open>
  C7. \<open>distance\<close> is symmetric: on every instance and for every two points, also points
  with special values as coordinates, \<open>distance(a, b)\<close> and \<open>distance(b, a)\<close> are the
  same number.
\<close>

theorem distance_symmetric: "distance this a b = distance this b a"
  by (simp add: distance_def radianDistance_commute [of "geoToRadians a" "geoToRadians b"])

lemma sin_half_sq: "sin (x / 2) * sin (x / 2) = (1 - cos x) / (2::real)"
proof -
  have "cos x = cos (2 * (x / 2))" by simp
  also have "\<dots> = 1 - 2 * (sin (x / 2))\<^sup>2" by (rule cos_double_sin)
  finally show ?thesis by (simp add: power2_eq_square)
qed

lemma prod_le_half_squares: "\<bar>a * b\<bar> \<le> (a * a + b * b) / (2::real)"
proof -
  have "0 \<le> (\<bar>a\<bar> - \<bar>b\<bar>) * (\<bar>a\<bar> - \<bar>b\<bar>)" by simp
  then have "2 * (\<bar>a\<bar> * \<bar>b\<bar>) \<le> \<bar>a\<bar> * \<bar>a\<bar> + \<bar>b\<bar> * \<bar>b\<bar>" by (simp add: algebra_simps)
  then show ?thesis by (simp add: abs_mult)
qed

lemma halves_le_one:
  "a + c = 1 \<Longrightarrow> b + d = 1 \<Longrightarrow> (a + b) / 2 + (c + d) / 2 \<le> (1::real)"
  by argo

lemma dot_bounded:
  fixes p1 p2 k :: real
  assumes k: "\<bar>k\<bar> \<le> 1"
  shows "\<bar>sin p1 * sin p2 + cos p1 * cos p2 * k\<bar> \<le> 1"
proof -
  have s: "\<bar>sin p1 * sin p2\<bar> \<le> (sin p1 * sin p1 + sin p2 * sin p2) / 2"
    by (rule prod_le_half_squares)
  have c: "\<bar>cos p1 * cos p2\<bar> \<le> (cos p1 * cos p1 + cos p2 * cos p2) / 2"
    by (rule prod_le_half_squares)
  have "\<bar>cos p1 * cos p2 * k\<bar> = \<bar>cos p1 * cos p2\<bar> * \<bar>k\<bar>" by (simp add: abs_mult)
  also have "\<dots> \<le> \<bar>cos p1 * cos p2\<bar> * 1" using k by (intro mult_left_mono) simp_all
  finally have ck: "\<bar>cos p1 * cos p2 * k\<bar> \<le> \<bar>cos p1 * cos p2\<bar>" by simp
  have one: "sin p1 * sin p1 + cos p1 * cos p1 = 1" "sin p2 * sin p2 + cos p2 * cos p2 = 1"
    using sin_cos_squared_add [of p1] sin_cos_squared_add [of p2]
    by (simp_all add: power2_eq_square)
  have "\<bar>sin p1 * sin p2 + cos p1 * cos p2 * k\<bar> \<le> \<bar>sin p1 * sin p2\<bar> + \<bar>cos p1 * cos p2 * k\<bar>"
    by (rule abs_triangle_ineq)
  also have "\<dots> \<le> (sin p1 * sin p1 + sin p2 * sin p2) / 2 + (cos p1 * cos p1 + cos p2 * cos p2) / 2"
    using s c ck by linarith
  also have "\<dots> \<le> 1" by (rule halves_le_one [OF one])
  finally show ?thesis .
qed

lemma hav_algebra:
  "(1 - (c + s)) / 2 + c * ((1 - k) / 2) = (1 - (s + c * k)) / (2::real)"
  by (simp add: field_simps)

lemma hav_arg_dot:
  "hav_arg p1 l1 p2 l2 = (1 - (sin p1 * sin p2 + cos p1 * cos p2 * cos (l2 - l1))) / 2"
proof -
  have "hav_arg p1 l1 p2 l2 =
      sin ((p2 - p1) / 2) * sin ((p2 - p1) / 2)
      + cos p1 * cos p2 * (sin ((l2 - l1) / 2) * sin ((l2 - l1) / 2))"
    by (simp add: hav_arg_def mult.assoc)
  also have "\<dots> = (1 - cos (p2 - p1)) / 2 + cos p1 * cos p2 * ((1 - cos (l2 - l1)) / 2)"
    by (simp only: sin_half_sq)
  also have "\<dots> = (1 - (sin p1 * sin p2 + cos p1 * cos p2 * cos (l2 - l1))) / 2"
    by (simp only: cos_diff [of p2 p1] hav_algebra [of "cos p1 * cos p2" "sin p1 * sin p2"]
        mult.commute [of "cos p2" "cos p1"] mult.commute [of "sin p2" "sin p1"])
  finally show ?thesis .
qed

lemma hav_arg_range: "0 \<le> hav_arg p1 l1 p2 l2" "hav_arg p1 l1 p2 l2 \<le> 1"
proof -
  have "\<bar>cos (l2 - l1)\<bar> \<le> 1" by simp
  from dot_bounded [OF this, of p1 p2]
  have "\<bar>sin p1 * sin p2 + cos p1 * cos p2 * cos (l2 - l1)\<bar> \<le> 1" .
  then show "0 \<le> hav_arg p1 l1 p2 l2" "hav_arg p1 l1 p2 l2 \<le> 1"
    unfolding hav_arg_dot by (simp_all add: abs_le_iff)
qed

lemma atan2_real_nonneg: "0 \<le> y \<Longrightarrow> 0 \<le> x \<Longrightarrow> 0 \<le> atan2_real y x"
  by (auto simp add: atan2_real_def)

lemma central_angle_nonneg: "0 \<le> central_angle p1 l1 p2 l2"
  unfolding central_angle_def using hav_arg_range [of p1 l1 p2 l2]
  by (simp add: atan2_real_nonneg)

lemma nsub_Fin: "nsub (Fin a) (Fin b) = Fin (a - b)"
  by (simp add: nsub_def)

lemma radianDistance_Fin:
  assumes "lat pA = Fin p1" "lng pA = Fin l1" "lat pB = Fin p2" "lng pB = Fin l2"
  shows "radianDistance pA pB = Fin (central_angle p1 l1 p2 l2)"
  using hav_arg_range [of p1 l1 p2 l2]
  by (simp add: radianDistance_def Let_def assms nsub_Fin central_angle_def hav_arg_def)

subsection \<open>Bounding rectangle and containment\<close>

text \<open>
  C2. With a radius that is \<open>NaN\<close> or not positive, \<open>bounds\<close> returns the center after
  its conversion to radians on all four edges, not the center in degrees: around the
  center \<open>{lat: 45, lng: 90}\<close> the edges are \<open>\<pi>/4\<close> and \<open>\<pi>/2\<close>.
\<close>

theorem bounds_nonpositive_radius_in_radians:
  "bounds this (Fin 0) \<lparr> lat = Fin 45, lng = Fin 90 \<rparr> =
     \<lparr> minLat = Fin (pi / 4), minLng = Fin (pi / 2), maxLat = Fin (pi / 4), maxLng = Fin (pi / 2) \<rparr>
   \<and> bounds this NaN \<lparr> lat = Fin 45, lng = Fin 90 \<rparr> =
     \<lparr> minLat = Fin (pi / 4), minLng = Fin (pi / 2), maxLat = Fin (pi / 4), maxLng = Fin (pi / 2) \<rparr>
   \<and> Fin (pi / 4) \<noteq> Fin 45 \<and> Fin (pi / 2) \<noteq> Fin 90"
  using pi_less_4
  by (simp add: bounds_def geoToRadians_def toRadians_Fin isNaN_def Let_def)

lemma isInBounds_Fin:
  "isInBounds \<lparr> lat = Fin la, lng = Fin lo, \<dots> = m \<rparr>
     \<lparr> minLat = Fin a, minLng = Fin b, maxLat = Fin c, maxLng = Fin d \<rparr> \<longleftrightarrow>
   (a \<le> la \<and> la \<le> c) \<and> (if d < b then b \<le> lo \<or> lo \<le> d else b \<le> lo \<and> lo \<le> d)"
  by (simp add: isInBounds_def nge_def ngt_def)

text \<open>
  C6. \<open>isInBounds\<close> is true exactly when the latitude lies between \<open>minLat\<close> and
  \<open>maxLat\<close> (inclusive) and the longitude condition holds: with \<open>minLng > maxLng\<close> the
  longitude is at least \<open>minLng\<close> or at most \<open>maxLng\<close>, otherwise it lies between
  \<open>minLng\<close> and \<open>maxLng\<close> (inclusive). The comparisons are those of the language, and
  on finite numbers they are the order of the reals.
\<close>

theorem isInBounds_iff:
  "(isInBounds p b \<longleftrightarrow>
     (nle (minLat b) (lat p) \<and> nle (lat p) (maxLat b)) \<and>
     (if ngt (minLng b) (maxLng b)
      then nle (minLng b) (lng p) \<or> nle (lng p) (maxLng b)
      else nle (minLng b) (lng p) \<and> nle (lng p) (maxLng b)))
   \<and> (isInBounds \<lparr> lat = Fin la, lng = Fin lo \<rparr>
         \<lparr> minLat = Fin a1, minLng = Fin b1, maxLat = Fin a2, maxLng = Fin b2 \<rparr> \<longleftrightarrow>
        (a1 \<le> la \<and> la \<le> a2) \<and>
        (if b1 > b2 then b1 \<le> lo \<or> lo \<le> b2 else b1 \<le> lo \<and> lo \<le> b2))"
  by (simp add: isInBounds_def nge_def ngt_def)

theorem isInBounds_iff_witness:
  "isInBounds \<lparr> lat = Fin 0, lng = Fin 179 \<rparr>
     \<lparr> minLat = Fin (- 1), minLng = Fin 170, maxLat = Fin 1, maxLng = Fin (- 170) \<rparr>
   \<and> \<not> isInBounds \<lparr> lat = Fin 0, lng = Fin 0 \<rparr>
     \<lparr> minLat = Fin (- 1), minLng = Fin 170, maxLat = Fin 1, maxLng = Fin (- 170) \<rparr>
   \<and> isInBounds \<lparr> lat = Fin 0, lng = Fin 5 \<rparr>
     \<lparr> minLat = Fin (- 1), minLng = Fin 0, maxLat = Fin 1, maxLng = Fin 10 \<rparr>"
  using isInBounds_iff [of "\<lparr> lat = Fin 0, lng = Fin 179 \<rparr>"
       "\<lparr> minLat = Fin (- 1), minLng = Fin 170, maxLat = Fin 1, maxLng = Fin (- 170) \<rparr>"]
    isInBounds_iff [of "\<lparr> lat = Fin 0, lng = Fin 0 \<rparr>"
       "\<lparr> minLat = Fin (- 1), minLng = Fin 170, maxLat = Fin 1, maxLng = Fin (- 170) \<rparr>"]
    isInBounds_iff [of "\<lparr> lat = Fin 0, lng = Fin 5 \<rparr>"
       "\<lparr> minLat = Fin (- 1), minLng = Fin 0, maxLat = Fin 1, maxLng = Fin 10 \<rparr>"]
  by (simp add: ngt_def)

lemma ratio_in_range:
  fixes d \<phi> :: real
  assumes d: "0 < d" and lo: "- (pi / 2) < \<phi> - d" and hi: "\<phi> + d < pi / 2"
  shows "0 < cos \<phi>" and "0 \<le> sin d / cos \<phi>" and "sin d / cos \<phi> \<le> 1"
proof -
  have phi: "- (pi / 2) < \<phi>" "\<phi> < pi / 2" using d lo hi by linarith+
  show c: "0 < cos \<phi>" using phi by (simp add: cos_gt_zero_pi)
  have dr: "0 < d" "d < pi / 2" using d lo hi by linarith+
  have s0: "0 \<le> sin d" using dr pi_gt_zero by (intro sin_ge_zero) linarith+
  show "0 \<le> sin d / cos \<phi>" using s0 c by simp
  have "sin d \<le> cos \<phi>"
  proof (cases "0 \<le> \<phi>")
    case True
    have "sin d \<le> sin (pi / 2 - \<phi>)"
      using dr hi True by (intro sin_monotone_2pi_le) linarith+
    then show ?thesis by (simp add: sin_cos_eq)
  next
    case False
    have "sin d \<le> sin (pi / 2 + \<phi>)"
      using dr lo False by (intro sin_monotone_2pi_le) linarith+
    then show ?thesis by (simp add: sin_cos_eq)
  qed
  then show "sin d / cos \<phi> \<le> 1" using c by simp
qed

lemma deg_mono: "a \<le> b \<Longrightarrow> a * 180 / pi \<le> b * 180 / pi"
  by (simp add: divide_right_mono)

lemma rad_mono: "a \<le> b \<Longrightarrow> a * pi / 180 \<le> b * pi / 180"
  by (simp add: mult_right_mono)

text \<open>The longitude test on the edges of the branch away from the poles, in radians.\<close>

lemma lng_inside:
  fixes l \<delta> :: real
  assumes l: "- pi \<le> l" "l \<le> pi" and dl: "0 \<le> \<delta>" "\<delta> \<le> pi / 2"
  defines "mn \<equiv> (if l - \<delta> < - pi then l - \<delta> + 2 * pi else l - \<delta>)"
    and "mx \<equiv> (if pi < l + \<delta> then l + \<delta> - 2 * pi else l + \<delta>)"
  shows "if mx < mn then mn \<le> l \<or> l \<le> mx else mn \<le> l \<and> l \<le> mx"
  using assms pi_gt_zero by (auto simp add: mn_def mx_def)

lemma bounds_away_from_poles:
  fixes \<phi> l d \<delta> :: real
  assumes c: "lat c = Fin (\<phi> * 180 / pi)" "lng c = Fin (l * 180 / pi)"
    and r: "r \<noteq> NaN" "\<not> nle r (Fin 0)" "ndiv r (earthRadius this) = Fin d"
    and np: "- (pi / 2) < \<phi> - d" "\<phi> + d < pi / 2"
    and rt: "cos \<phi> \<noteq> 0" "- 1 \<le> sin d / cos \<phi>" "sin d / cos \<phi> \<le> 1"
  shows "bounds this r c =
       \<lparr> minLat = Fin ((\<phi> - d) * 180 / pi),
         minLng = Fin ((if l - arcsin (sin d / cos \<phi>) < - pi
                        then l - arcsin (sin d / cos \<phi>) + 2 * pi
                        else l - arcsin (sin d / cos \<phi>)) * 180 / pi),
         maxLat = Fin ((\<phi> + d) * 180 / pi),
         maxLng = Fin ((if pi < l + arcsin (sin d / cos \<phi>)
                        then l + arcsin (sin d / cos \<phi>) - 2 * pi
                        else l + arcsin (sin d / cos \<phi>)) * 180 / pi) \<rparr>"
proof -
  have g: "geoToRadians c = \<lparr> lat = Fin \<phi>, lng = Fin l \<rparr>"
    by (simp add: geoToRadians_def c toRadians_Fin)
  have lim: "toRadians (Fin (- 90)) = Fin (- (pi / 2))" "toRadians (Fin 90) = Fin (pi / 2)"
    "toRadians (Fin (- 180)) = Fin (- pi)" "toRadians (Fin 180) = Fin pi"
    by (simp_all add: toRadians_Fin)
  show ?thesis
    unfolding bounds_def Let_def g lim
    using r np rt
    by (simp add: isNaN_def nsub_def ngt_def Math_PI_def toDegrees_Fin)
qed

lemma toRadians_limits:
  "toRadians (Fin (- 90)) = Fin (- (pi / 2))" "toRadians (Fin 90) = Fin (pi / 2)"
  "toRadians (Fin (- 180)) = Fin (- pi)" "toRadians (Fin 180) = Fin pi"
  by (simp_all add: toRadians_Fin)

lemma bounds_reaching_pole:
  fixes \<phi> l d :: real
  assumes c: "lat c = Fin (\<phi> * 180 / pi)" "lng c = Fin (l * 180 / pi)"
    and r: "r \<noteq> NaN" "\<not> nle r (Fin 0)" "ndiv r (earthRadius this) = Fin d"
    and p: "\<not> (- (pi / 2) < \<phi> - d \<and> \<phi> + d < pi / 2)"
  shows "bounds this r c =
       \<lparr> minLat = Fin (max (\<phi> - d) (- (pi / 2)) * 180 / pi), minLng = Fin (- 180),
         maxLat = Fin (min (\<phi> + d) (pi / 2) * 180 / pi), maxLng = Fin 180 \<rparr>"
proof -
  have g: "geoToRadians c = \<lparr> lat = Fin \<phi>, lng = Fin l \<rparr>"
    by (simp add: geoToRadians_def c toRadians_Fin)
  show ?thesis
    unfolding bounds_def Let_def g toRadians_limits
    using r p
    by (auto simp add: isNaN_def nsub_def ngt_def Math_PI_def toDegrees_Fin
        Math_max_def Math_min_def max_def min_def)
qed

lemma bounds_infinite_radius:
  fixes \<phi> l :: real
  assumes c: "lat c = Fin (\<phi> * 180 / pi)" "lng c = Fin (l * 180 / pi)"
    and r: "r \<noteq> NaN" "\<not> nle r (Fin 0)" "ndiv r (earthRadius this) = PInf"
  shows "bounds this r c =
       \<lparr> minLat = Fin (- 90), minLng = Fin (- 180), maxLat = Fin 90, maxLng = Fin 180 \<rparr>"
proof -
  have g: "geoToRadians c = \<lparr> lat = Fin \<phi>, lng = Fin l \<rparr>"
    by (simp add: geoToRadians_def c toRadians_Fin)
  show ?thesis
    unfolding bounds_def Let_def g toRadians_limits
    using r
    by (simp add: isNaN_def nsub_def ngt_def Math_PI_def toDegrees_Fin
        Math_max_def Math_min_def)
qed

lemma center_in_bounds_radius:
  fixes la lo R :: real
  assumes R: "earthRadius this = Fin R" "0 < R"
    and c: "lat c = Fin la" "lng c = Fin lo"
    and range: "- 90 \<le> la" "la \<le> 90" "- 180 \<le> lo" "lo \<le> 180"
    and r: "ngt r (Fin 0)"
  shows "isInBounds c (bounds this r c)"
proof -
  define \<phi> where "\<phi> = la * pi / 180"
  define l where "l = lo * pi / 180"
  have l: "- pi \<le> l" "l \<le> pi"
    using rad_mono [of "- 180" lo] rad_mono [of lo 180] range by (simp_all add: l_def)
  have phi: "- (pi / 2) \<le> \<phi>" "\<phi> \<le> pi / 2"
    using rad_mono [of "- 90" la] rad_mono [of la 90] range by (simp_all add: \<phi>_def)
  have la: "la = \<phi> * 180 / pi" and lo: "lo = l * 180 / pi" by (simp_all add: \<phi>_def l_def)
  have c': "lat c = Fin (\<phi> * 180 / pi)" "lng c = Fin (l * 180 / pi)"
    using c la lo by simp_all
  have cc: "c = \<lparr> lat = Fin la, lng = Fin lo, \<dots> = Ilatlng.more c \<rparr>"
    using c by (cases c) simp
  have rn: "r \<noteq> NaN" "\<not> nle r (Fin 0)"
    using r by (cases r; simp add: ngt_def)+
  show ?thesis
  proof (cases r)
    case (Fin x)
    define d where "d = x / R"
    have x: "0 < x" using r Fin by (simp add: ngt_def)
    have d: "0 < d" using x R by (simp add: d_def)
    have rd: "ndiv r (earthRadius this) = Fin d" using R Fin by (simp add: d_def)
    show ?thesis
    proof (cases "- (pi / 2) < \<phi> - d \<and> \<phi> + d < pi / 2")
      case True
      then have np: "- (pi / 2) < \<phi> - d" "\<phi> + d < pi / 2" by simp_all
      note rt = ratio_in_range [OF d np]
      define \<delta> where "\<delta> = arcsin (sin d / cos \<phi>)"
      have dl: "0 \<le> \<delta>" "\<delta> \<le> pi / 2"
        using rt arcsin_nonneg [of "sin d / cos \<phi>"] arcsin_bounded [of "sin d / cos \<phi>"]
        by (simp_all add: \<delta>_def)
      have b: "bounds this r c =
         \<lparr> minLat = Fin ((\<phi> - d) * 180 / pi),
           minLng = Fin ((if l - \<delta> < - pi then l - \<delta> + 2 * pi else l - \<delta>) * 180 / pi),
           maxLat = Fin ((\<phi> + d) * 180 / pi),
           maxLng = Fin ((if pi < l + \<delta> then l + \<delta> - 2 * pi else l + \<delta>) * 180 / pi) \<rparr>"
        unfolding \<delta>_def using rt by (intro bounds_away_from_poles c' rn rd np) simp_all
      have lat_ok: "(\<phi> - d) * 180 / pi \<le> la \<and> la \<le> (\<phi> + d) * 180 / pi"
        using d deg_mono [of "\<phi> - d" \<phi>] deg_mono [of \<phi> "\<phi> + d"] by (simp add: la)
      have lng_ok: "if (if pi < l + \<delta> then l + \<delta> - 2 * pi else l + \<delta>) * 180 / pi
                       < (if l - \<delta> < - pi then l - \<delta> + 2 * pi else l - \<delta>) * 180 / pi
                    then (if l - \<delta> < - pi then l - \<delta> + 2 * pi else l - \<delta>) * 180 / pi \<le> lo
                       \<or> lo \<le> (if pi < l + \<delta> then l + \<delta> - 2 * pi else l + \<delta>) * 180 / pi
                    else (if l - \<delta> < - pi then l - \<delta> + 2 * pi else l - \<delta>) * 180 / pi \<le> lo
                       \<and> lo \<le> (if pi < l + \<delta> then l + \<delta> - 2 * pi else l + \<delta>) * 180 / pi"
        using lng_inside [OF l dl] pi_gt_zero
        by (simp add: lo divide_le_cancel divide_less_cancel)
      show ?thesis
        by (subst cc, subst b, subst isInBounds_Fin) (use lat_ok lng_ok in blast)
    next
      case False
      have b: "bounds this r c =
         \<lparr> minLat = Fin (max (\<phi> - d) (- (pi / 2)) * 180 / pi), minLng = Fin (- 180),
           maxLat = Fin (min (\<phi> + d) (pi / 2) * 180 / pi), maxLng = Fin 180 \<rparr>"
        by (rule bounds_reaching_pole [OF c' rn rd False])
      have lat_ok: "max (\<phi> - d) (- (pi / 2)) * 180 / pi \<le> la \<and> la \<le> min (\<phi> + d) (pi / 2) * 180 / pi"
        using d phi deg_mono [of "max (\<phi> - d) (- (pi / 2))" \<phi>] deg_mono [of \<phi> "min (\<phi> + d) (pi / 2)"]
        by (simp add: la)
      show ?thesis
        by (subst cc, subst b, subst isInBounds_Fin) (use lat_ok range in simp)
    qed
  next
    case PInf
    have rd: "ndiv r (earthRadius this) = PInf" using R PInf by simp
    have b: "bounds this r c =
       \<lparr> minLat = Fin (- 90), minLng = Fin (- 180), maxLat = Fin 90, maxLng = Fin 180 \<rparr>"
      by (rule bounds_infinite_radius [OF c' rn rd])
    show ?thesis
      by (subst cc, subst b, subst isInBounds_Fin) (use range in simp)
  next
    case NaN
    with r show ?thesis by (simp add: ngt_def)
  next
    case NInf
    with r show ?thesis by (simp add: ngt_def)
  qed
qed

lemma constructor_radius:
  "earthRadius (constructor u) = Fin 6371 \<or> earthRadius (constructor u) = Fin (3958756 / 1000)"
  by (simp add: constructor_def Let_def)

lemma constructor_radius_positive: "\<exists>R. earthRadius (constructor u) = Fin R \<and> 0 < R"
  using constructor_radius [of u] by auto

text \<open>
  In exact arithmetic the center of a bounding rectangle lies in the rectangle: for a
  center with latitude in \<open>[-90, 90]\<close> and longitude in \<open>[-180, 180]\<close> and a radius
  greater than zero (\<open>Infinity\<close> too), on every instance. The proof goes through the
  branch away from the poles, where each edge of longitude may be wrapped over the
  antimeridian, and through the branch that reaches a pole. It rests on
  \<open>toDegrees\<close> undoing \<open>toRadians\<close> exactly, which the doubles do not give.
\<close>

lemma center_in_bounds_exact:
  assumes "lat c = Fin la" and "lng c = Fin lo"
    and "- 90 \<le> la" and "la \<le> 90" and "- 180 \<le> lo" and "lo \<le> 180"
    and "ngt r (Fin 0)"
  shows "isInBounds c (bounds (constructor u) r c)"
proof -
  obtain R where "earthRadius (constructor u) = Fin R" "0 < R"
    using constructor_radius_positive by blast
  then show ?thesis using assms by (rule center_in_bounds_radius)
qed


subsection \<open>The bounding rectangle on doubles\<close>

lemma rne_eqI:
  assumes "of_int m - 1 / 2 < y" and "y < of_int m + 1 / 2"
  shows "rne y = m"
proof -
  have "\<lfloor>y\<rfloor> = m \<or> \<lfloor>y\<rfloor> = m - 1" using assms by linarith
  then show ?thesis
  proof
    assume f: "\<lfloor>y\<rfloor> = m"
    have "y - of_int m < 1 / 2" using assms by simp
    then show ?thesis by (simp add: rne_def f)
  next
    assume f: "\<lfloor>y\<rfloor> = m - 1"
    have "1 / 2 < y - of_int (m - 1)" using assms by simp
    then show ?thesis by (simp add: rne_def f Let_def)
  qed
qed

lemma rne_tie:
  assumes "y = of_int f + 1 / 2"
  shows "rne y = (if even f then f else f + 1)"
proof -
  have "\<lfloor>y\<rfloor> = f" using assms by linarith
  then show ?thesis using assms by (simp add: rne_def)
qed

lemma rne_close: "\<bar>of_int (rne y) - y\<bar> \<le> 1 / 2"
proof -
  have "of_int \<lfloor>y\<rfloor> \<le> y" "y < of_int \<lfloor>y\<rfloor> + 1" by linarith+
  then show ?thesis by (auto simp add: rne_def Let_def)
qed

text \<open>
  A real whose magnitude times \<open>2^k\<close> lies in \<open>[2^52, 2^53)\<close> rounds to the multiple of
  \<open>2^-k\<close> that \<open>rne\<close> selects.
\<close>

lemma round64_eval:
  fixes x :: real and k :: nat and m :: int
  assumes lo: "2 ^ 52 \<le> \<bar>x\<bar> * 2 ^ k" and hi: "\<bar>x\<bar> * 2 ^ k < 2 ^ 53" and k: "k \<le> 1074"
    and m: "rne (x * 2 ^ k) = m"
  shows "round64 x = Fin (of_int m / 2 ^ k)"
proof -
  have x0: "x \<noteq> 0" using lo by auto
  then have ax: "0 < \<bar>x\<bar>" by simp
  have p: "(2::real) powr (of_int (52 - int k)) = 2 ^ 52 / 2 ^ k"
    by (simp add: powr_diff powr_realpow)
  have p1: "(2::real) powr (of_int (52 - int k + 1)) = 2 ^ 53 / 2 ^ k"
    by (simp add: powr_diff powr_realpow powr_add)
  have "2 powr (of_int (52 - int k)) \<le> \<bar>x\<bar> \<and> \<bar>x\<bar> < 2 powr (of_int (52 - int k + 1))"
    unfolding p p1 using lo hi by (simp add: field_simps)
  then have fl: "\<lfloor>log 2 \<bar>x\<bar>\<rfloor> = 52 - int k"
    using floor_log_eq_powr_iff [of "\<bar>x\<bar>" 2 "52 - int k"] ax by simp
  have e: "max \<lfloor>log 2 \<bar>x\<bar>\<rfloor> (- 1022) = 52 - int k" using k by (simp add: fl)
  have q: "(2::real) powr (of_int (52 - int k) - 52) = 1 / 2 ^ k"
    by (simp add: powr_minus powr_realpow inverse_eq_divide)
  have r: "rne (x / (1 / 2 ^ k)) = m" using m by simp
  have mb: "\<bar>real_of_int m\<bar> < 2 ^ 53 + 1"
  proof -
    have "\<bar>x * 2 ^ k\<bar> < 2 ^ 53" using hi by (simp add: abs_mult)
    then show ?thesis using rne_close [of "x * 2 ^ k"] m by linarith
  qed
  have "\<bar>real_of_int m * (1 / 2 ^ k)\<bar> = \<bar>real_of_int m\<bar> / 2 ^ k" by (simp add: abs_mult)
  also have "\<dots> \<le> \<bar>real_of_int m\<bar> / 1"
    by (intro divide_left_mono) simp_all
  also have "\<dots> = \<bar>real_of_int m\<bar>" by simp
  finally have "\<bar>real_of_int m * (1 / 2 ^ k)\<bar> < 2 ^ 53 + 1" using mb by linarith
  moreover have "(2::real) ^ 53 + 1 < 2 powr 1024"
  proof -
    have "(2::real) powr 1024 = 2 ^ 1024" by (simp add: powr_realpow [symmetric])
    then show ?thesis by simp
  qed
  ultimately have small: "\<not> 2 powr 1024 \<le> \<bar>real_of_int m * (1 / 2 ^ k)\<bar>" by linarith
  show ?thesis
    unfolding round64_def Let_def e q r using x0 small by simp
qed

lemma round64_zero: "round64 0 = Fin 0"
  by (simp add: round64_def)

lemma round64_6371: "round64 6371 = Fin 6371"
  using round64_eval [of 6371 40 7004988580560896]
  by (simp add: rne_eqI [where m = 7004988580560896])

lemma toRadians64_zero: "toRadians64 (Fin 0) = Fin 0"
  by (simp add: toRadians64_def dmul_def ddiv_def Math_PI64_def round64_zero)

text \<open>\<open>toRadians(30)\<close> is \<open>0.5235987755982988\<close>; the product \<open>30 * Math.PI\<close> is a tie.\<close>

lemma toRadians64_30: "toRadians64 (Fin 30) = Fin (4716158501352293 / 2 ^ 53)"
proof -
  have a: "round64 (30 * (884279719003555 / 281474976710656)) = Fin (6632097892526662 / 2 ^ 46)"
    using round64_eval [of "30 * (884279719003555 / 281474976710656)" 46 6632097892526662]
    by (simp add: rne_tie [where f = 6632097892526662])
  have b: "round64 (6632097892526662 / 2 ^ 46 / 180) = Fin (4716158501352293 / 2 ^ 53)"
    using round64_eval [of "6632097892526662 / 2 ^ 46 / 180" 53 4716158501352293]
    by (simp add: rne_eqI [where m = 4716158501352293])
  have "dmul (Fin 30) Math_PI64 = Fin (6632097892526662 / 2 ^ 46)"
    unfolding dmul_def Math_PI64_def nmul.simps rnd.simps by (rule a)
  moreover have "ddiv (Fin (6632097892526662 / 2 ^ 46)) (Fin 180) = Fin (4716158501352293 / 2 ^ 53)"
    using b by (simp add: ddiv_def)
  ultimately show ?thesis by (simp only: toRadians64_def)
qed

text \<open>\<open>toRadians(90)\<close> and \<open>toRadians(-90)\<close> are \<open>1.5707963267948966\<close> and its negative.\<close>

lemma toRadians64_90: "toRadians64 (Fin 90) = Fin (7074237752028440 / 2 ^ 52)"
proof -
  have a: "round64 (90 * (884279719003555 / 281474976710656)) = Fin (4974073419394997 / 2 ^ 44)"
    using round64_eval [of "90 * (884279719003555 / 281474976710656)" 44 4974073419394997]
    by (simp add: rne_eqI [where m = 4974073419394997])
  have b: "round64 (4974073419394997 / 2 ^ 44 / 180) = Fin (7074237752028440 / 2 ^ 52)"
    using round64_eval [of "4974073419394997 / 2 ^ 44 / 180" 52 7074237752028440]
    by (simp add: rne_eqI [where m = 7074237752028440])
  have "dmul (Fin 90) Math_PI64 = Fin (4974073419394997 / 2 ^ 44)"
    unfolding dmul_def Math_PI64_def nmul.simps rnd.simps by (rule a)
  moreover have "ddiv (Fin (4974073419394997 / 2 ^ 44)) (Fin 180) = Fin (7074237752028440 / 2 ^ 52)"
    using b by (simp add: ddiv_def)
  ultimately show ?thesis by (simp only: toRadians64_def)
qed

lemma toRadians64_minus_90: "toRadians64 (Fin (- 90)) = Fin (- (7074237752028440 / 2 ^ 52))"
proof -
  have a: "round64 (- 90 * (884279719003555 / 281474976710656)) = Fin (- 4974073419394997 / 2 ^ 44)"
    using round64_eval [of "- 90 * (884279719003555 / 281474976710656)" 44 "- 4974073419394997"]
    by (simp add: rne_eqI [where m = "- 4974073419394997"])
  have b: "round64 (- 4974073419394997 / 2 ^ 44 / 180) = Fin (- 7074237752028440 / 2 ^ 52)"
    using round64_eval [of "- 4974073419394997 / 2 ^ 44 / 180" 52 "- 7074237752028440"]
    by (simp add: rne_eqI [where m = "- 7074237752028440"])
  have "dmul (Fin (- 90)) Math_PI64 = Fin (- 4974073419394997 / 2 ^ 44)"
    unfolding dmul_def Math_PI64_def nmul.simps rnd.simps by (rule a)
  moreover have "ddiv (Fin (- 4974073419394997 / 2 ^ 44)) (Fin 180) = Fin (- 7074237752028440 / 2 ^ 52)"
    using b by (simp add: ddiv_def)
  ultimately show ?thesis by (simp add: toRadians64_def)
qed

text \<open>
  The radius \<open>2^-70\<close> over the earth radius \<open>6371\<close> is about \<open>1.33e-25\<close>, and adding it to
  \<open>toRadians(30)\<close> or subtracting it changes nothing: it is far below half a unit in the
  last place.
\<close>

lemma radDist_tiny: "ddiv (Fin (1 / 2 ^ 70)) (Fin 6371) = Fin (5790847299861733 / 2 ^ 135)"
  using round64_eval [of "1 / 2 ^ 70 / 6371" 135 5790847299861733]
  by (simp add: ddiv_def rne_eqI [where m = 5790847299861733])

lemma lat_minus_tiny:
  "dsub (Fin (4716158501352293 / 2 ^ 53)) (Fin (5790847299861733 / 2 ^ 135)) =
     Fin (4716158501352293 / 2 ^ 53)"
  using round64_eval [of "4716158501352293 / 2 ^ 53 - 5790847299861733 / 2 ^ 135" 53 4716158501352293]
  by (simp add: dsub_def nsub_def rne_eqI [where m = 4716158501352293])

lemma lat_plus_tiny:
  "dadd (Fin (4716158501352293 / 2 ^ 53)) (Fin (5790847299861733 / 2 ^ 135)) =
     Fin (4716158501352293 / 2 ^ 53)"
  using round64_eval [of "4716158501352293 / 2 ^ 53 + 5790847299861733 / 2 ^ 135" 53 4716158501352293]
  by (simp add: dadd_def rne_eqI [where m = 4716158501352293])

text \<open>\<open>toDegrees(toRadians(30))\<close> is \<open>29.999999999999996\<close>, one unit in the last place below 30.\<close>

lemma toDegrees64_lat: "toDegrees64 (Fin (4716158501352293 / 2 ^ 53)) = Fin (8444249301319679 / 2 ^ 48)"
proof -
  have a: "round64 (4716158501352293 / 2 ^ 53 * 180) = Fin (6632097892526662 / 2 ^ 46)"
    using round64_eval [of "4716158501352293 / 2 ^ 53 * 180" 46 6632097892526662]
    by (simp add: rne_eqI [where m = 6632097892526662])
  have b: "round64 (6632097892526662 / 2 ^ 46 / (884279719003555 / 281474976710656)) =
      Fin (8444249301319679 / 2 ^ 48)"
    using round64_eval [of "6632097892526662 / 2 ^ 46 / (884279719003555 / 281474976710656)"
        48 8444249301319679]
    by (simp add: rne_eqI [where m = 8444249301319679])
  have "dmul (Fin (4716158501352293 / 2 ^ 53)) (Fin 180) = Fin (6632097892526662 / 2 ^ 46)"
    unfolding dmul_def nmul.simps rnd.simps by (rule a)
  moreover have "ddiv (Fin (6632097892526662 / 2 ^ 46)) Math_PI64 = Fin (8444249301319679 / 2 ^ 48)"
    unfolding ddiv_def Math_PI64_def using b by simp
  ultimately show ?thesis by (simp only: toDegrees64_def)
qed

text \<open>
  C5. On doubles the center of a bounding rectangle can lie outside the rectangle. On a
  kilometers instance, \<open>bounds(2 ** -70, {lat: 30, lng: 0})\<close> has
  \<open>maxLat = 29.999999999999996\<close>, less than the latitude 30 of the center, whatever
  \<open>Math.sin\<close>, \<open>Math.cos\<close> and \<open>Math.asin\<close> return: the radius is lost in the additions
  and the conversion to radians and back does not return 30. So
  \<open>isInBounds({lat: 30, lng: 0}, bounds(2 ** -70, {lat: 30, lng: 0}))\<close> is false.
\<close>

theorem center_outside_bounds64:
  "maxLat (bounds64 math (constructor (Some ''K'')) (Fin (1 / 2 ^ 70))
       \<lparr> lat = Fin 30, lng = Fin 0 \<rparr>) = Fin (30 - 1 / 2 ^ 48)
   \<and> \<not> isInBounds \<lparr> lat = Fin 30, lng = Fin 0 \<rparr>
        (bounds64 math (constructor (Some ''K'')) (Fin (1 / 2 ^ 70))
           \<lparr> lat = Fin 30, lng = Fin 0 \<rparr>)"
proof -
  define latr :: real where "latr = 4716158501352293 / 2 ^ 53"
  define d :: real where "d = 5790847299861733 / 2 ^ 135"
  define hp :: real where "hp = 7074237752028440 / 2 ^ 52"
  define r :: real where "r = 1 / 2 ^ 70"
  have g: "geoToRadians64 \<lparr> lat = Fin 30, lng = Fin 0 \<rparr> = \<lparr> lat = Fin latr, lng = Fin 0 \<rparr>"
    by (simp add: geoToRadians64_def toRadians64_30 toRadians64_zero latr_def)
  have er: "rnd (earthRadius (constructor (Some ''K''))) = Fin 6371"
    by (simp add: constructor_def substring_def toUpperCase_def toUpperCase_char_def round64_6371)
  have rpos: "\<not> nle (Fin r) (Fin 0)" by (simp add: r_def)
  have rd: "ddiv (Fin r) (Fin 6371) = Fin d"
    unfolding r_def d_def by (rule radDist_tiny)
  have mn: "dsub (Fin latr) (Fin d) = Fin latr"
    unfolding latr_def d_def by (rule lat_minus_tiny)
  have mx: "dadd (Fin latr) (Fin d) = Fin latr"
    unfolding latr_def d_def by (rule lat_plus_tiny)
  have lim: "toRadians64 (Fin (- 90)) = Fin (- hp)" "toRadians64 (Fin 90) = Fin hp"
    unfolding hp_def by (rule toRadians64_minus_90, rule toRadians64_90)
  have away: "- hp < latr" "latr < hp" by (simp_all add: hp_def latr_def)
  have td: "toDegrees64 (Fin latr) = Fin (30 - 1 / 2 ^ 48)"
    using toDegrees64_lat by (simp add: latr_def)
  have b: "maxLat (bounds64 math (constructor (Some ''K'')) (Fin r) \<lparr> lat = Fin 30, lng = Fin 0 \<rparr>)
      = Fin (30 - 1 / 2 ^ 48)"
    unfolding bounds64_def Let_def g
    using rpos away by (simp add: isNaN_def er rd mn mx lim ngt_def td)
  have "\<not> nle (Fin 30) (Fin (30 - 1 / 2 ^ 48))" by simp
  with b have "\<not> isInBounds \<lparr> lat = Fin 30, lng = Fin 0 \<rparr>
        (bounds64 math (constructor (Some ''K'')) (Fin r) \<lparr> lat = Fin 30, lng = Fin 0 \<rparr>)"
    by (simp add: isInBounds_def)
  with b show ?thesis unfolding r_def by simp
qed

subsection \<open>Midpoint and distance to a list\<close>

text \<open>
  C10. \<open>computeMidpoint\<close> of the empty list is \<open>{lat: 0, lng: 0}\<close>: the averaging step
  returns its zero vector untouched, without a division, and the conversion to degrees
  keeps the zeros.
\<close>

theorem computeMidpoint_empty:
  "computeAverageCoordinates [] = \<lparr> lat = Fin 0, lng = Fin 0, cx = Fin 0, cy = Fin 0, cz = Fin 0 \<rparr>
   \<and> computeMidpoint ([] :: Ilatlng list) = \<lparr> lat = Fin 0, lng = Fin 0 \<rparr>"
  by (simp add: computeMidpoint_def computeAverageCoordinates_def toCenteringArray_def
      geoToDegrees_def toDegrees_Fin)

text \<open>
  C9. The point \<open>distanceToPointList\<close> returns is the given point, whose coordinates
  are degrees, converted from radians to degrees once more: \<open>{lat: a, lng: b}\<close> comes
  back as \<open>{lat: a \<sqdot> 180/\<pi>, lng: b \<sqdot> 180/\<pi>}\<close>, which is another point as soon as \<open>a\<close> or
  \<open>b\<close> is not zero. This holds for every list of points, the empty one too.
\<close>

theorem distanceToPointList_point:
  assumes "lat fromPoint = Fin a" and "lng fromPoint = Fin b"
  shows "point (distanceToPointList this fromPoint toPoints) =
           \<lparr> lat = Fin (a * 180 / pi), lng = Fin (b * 180 / pi) \<rparr>
         \<and> (a \<noteq> 0 \<or> b \<noteq> 0 \<longrightarrow>
              point (distanceToPointList this fromPoint toPoints) \<noteq> \<lparr> lat = Fin a, lng = Fin b \<rparr>)"
  using assms toDegrees_changes [of a] toDegrees_changes [of b]
  by (auto simp add: distanceToPointList_def Let_def geoToDegrees_def toDegrees_Fin
      Ilatlng.truncate_def)

theorem distanceToPointList_point_witness:
  "point (distanceToPointList (constructor None) \<lparr> lat = Fin 45, lng = Fin 90 \<rparr>
            [\<lparr> lat = Fin 10, lng = Fin 20 \<rparr>]) =
     \<lparr> lat = Fin (45 * 180 / pi), lng = Fin (90 * 180 / pi) \<rparr>
   \<and> point (distanceToPointList (constructor None) \<lparr> lat = Fin 45, lng = Fin 90 \<rparr>
            [\<lparr> lat = Fin 10, lng = Fin 20 \<rparr>]) \<noteq> \<lparr> lat = Fin 45, lng = Fin 90 \<rparr>"
proof -
  have h: "lat \<lparr> lat = Fin 45, lng = Fin 90 \<rparr> = Fin 45"
    "lng \<lparr> lat = Fin 45, lng = Fin 90 \<rparr> = Fin 90"
    by simp_all
  have n: "(45::real) \<noteq> 0 \<or> (90::real) \<noteq> 0" by simp
  from distanceToPointList_point [OF h, of "constructor None" "[\<lparr> lat = Fin 10, lng = Fin 20 \<rparr>]"] n
  show ?thesis by blast
qed

subsection \<open>The point of minimum distance\<close>

text \<open>
  C3. \<open>computeMinimumDistancePoint\<close> of the empty list is the zero point with both
  distances zero, and of a list of one point it is that point with both distances zero;
  in both cases \<open>_sumRadianDistance\<close> is not called at all.
\<close>

theorem computeMinimumDistancePoint_degenerate:
  "computeMinimumDistancePoint_counted this ([] :: Ilatlng list) =
     Some (\<lparr> point = \<lparr> lat = Fin 0, lng = Fin 0 \<rparr>, avgDist = Fin 0, totalDist = Fin 0 \<rparr>, 0)
   \<and> computeMinimumDistancePoint this ([] :: Ilatlng list) =
     Some \<lparr> point = \<lparr> lat = Fin 0, lng = Fin 0 \<rparr>, avgDist = Fin 0, totalDist = Fin 0 \<rparr>
   \<and> computeMinimumDistancePoint_counted this [p :: Ilatlng] =
     Some (\<lparr> point = p, avgDist = Fin 0, totalDist = Fin 0 \<rparr>, 0)
   \<and> computeMinimumDistancePoint this [p :: Ilatlng] =
     Some \<lparr> point = p, avgDist = Fin 0, totalDist = Fin 0 \<rparr>"
  by (simp add: computeMinimumDistancePoint_def computeMinimumDistancePoint_counted_def)

lemma isFinite_iff: "isFinite v \<longleftrightarrow> (\<exists>a. v = Fin a)"
  by (cases v) simp_all

lemma toRadians_toDegrees_Fin: "toRadians (toDegrees (Fin a)) = Fin a"
  by (simp add: toRadians_def toDegrees_def Math_PI_def)

lemma toCenteringArray_Cons:
  "toCenteringArray (p # ps) =
     \<lparr> lat = toRadians (lat p), lng = toRadians (lng p),
       cx = nmul (Math_cos (toRadians (lat p))) (Math_cos (toRadians (lng p))),
       cy = nmul (Math_cos (toRadians (lat p))) (Math_sin (toRadians (lng p))),
       cz = Math_sin (toRadians (lat p)) \<rparr> # toCenteringArray ps"
  by (simp add: toCenteringArray_def Let_def)

lemma toCenteringArray_Nil: "toCenteringArray [] = []"
  by (simp add: toCenteringArray_def)

lemma distance_Fin:
  assumes R: "earthRadius this = Fin R"
    and "lat a = Fin (p1 * 180 / pi)" "lng a = Fin (l1 * 180 / pi)"
    and "lat b = Fin (p2 * 180 / pi)" "lng b = Fin (l2 * 180 / pi)"
  shows "distance this a b = Fin (R * central_angle p1 l1 p2 l2)"
proof -
  have "radianDistance (geoToRadians a) (geoToRadians b) = Fin (central_angle p1 l1 p2 l2)"
    by (rule radianDistance_Fin) (simp_all add: geoToRadians_def assms toRadians_Fin)
  then show ?thesis by (simp add: distance_def Let_def R isNaN_def)
qed

text \<open>
  The sum of the angles from a point to a list of finite points is a finite number that
  is not negative, and the sum of the distances is that number times the radius.
\<close>

lemma sums_agree:
  fixes R p1 l1 A B :: real
  assumes R: "earthRadius this = Fin R"
    and m: "lat m = Fin p1" "lng m = Fin l1"
    and md: "lat md = Fin (p1 * 180 / pi)" "lng md = Fin (l1 * 180 / pi)"
    and fin: "\<forall>p \<in> set ps. isFinite (lat p) \<and> isFinite (lng p)"
  shows "\<exists>S. 0 \<le> S
    \<and> foldl (\<lambda>result toPoint. nadd result (radianDistance m toPoint)) (Fin A)
         (toCenteringArray ps) = Fin (A + S)
    \<and> foldl (\<lambda>acc p. nadd acc (distance this md p)) (Fin B) ps = Fin (B + R * S)"
  using fin
proof (induction ps arbitrary: A B)
  case Nil
  show ?case by (simp add: toCenteringArray_Nil)
next
  case (Cons p ps)
  from Cons.prems obtain a b where p: "lat p = Fin a" "lng p = Fin b"
    by (auto simp add: isFinite_iff)
  define c where "c = central_angle p1 l1 (a * pi / 180) (b * pi / 180)"
  have c0: "0 \<le> c" unfolding c_def by (rule central_angle_nonneg)
  have rd: "radianDistance m
      \<lparr> lat = toRadians (lat p), lng = toRadians (lng p),
        cx = nmul (Math_cos (toRadians (lat p))) (Math_cos (toRadians (lng p))),
        cy = nmul (Math_cos (toRadians (lat p))) (Math_sin (toRadians (lng p))),
        cz = Math_sin (toRadians (lat p)) \<rparr> = Fin c"
    unfolding c_def by (rule radianDistance_Fin) (simp_all add: m p toRadians_Fin)
  have ds: "distance this md p = Fin (R * c)"
    unfolding c_def by (rule distance_Fin [OF R md]) (simp_all add: p)
  from Cons.prems have "\<forall>p \<in> set ps. isFinite (lat p) \<and> isFinite (lng p)" by simp
  from Cons.IH [OF this, of "A + c" "B + R * c"]
  obtain S where S: "0 \<le> S"
    "foldl (\<lambda>result toPoint. nadd result (radianDistance m toPoint)) (Fin (A + c))
         (toCenteringArray ps) = Fin (A + c + S)"
    "foldl (\<lambda>acc p. nadd acc (distance this md p)) (Fin (B + R * c)) ps = Fin (B + R * c + R * S)"
    by blast
  show ?case
  proof (intro exI conjI)
    show "0 \<le> c + S" using c0 S(1) by simp
    show "foldl (\<lambda>result toPoint. nadd result (radianDistance m toPoint)) (Fin A)
         (toCenteringArray (p # ps)) = Fin (A + (c + S))"
      by (simp add: toCenteringArray_Cons rd S(2) add.assoc)
    show "foldl (\<lambda>acc p. nadd acc (distance this md p)) (Fin B) (p # ps) = Fin (B + R * (c + S))"
      by (simp add: ds S(3) add.assoc distrib_left)
  qed
qed

text \<open>The averaged vector of finite points is finite, and so is the midpoint.\<close>

lemma summed_finite:
  assumes "\<forall>q \<in> set qs. isFinite (cx q) \<and> isFinite (cy q) \<and> isFinite (cz q)"
    and "isFinite (cx acc) \<and> isFinite (cy acc) \<and> isFinite (cz acc)"
  shows "isFinite (cx (foldl (\<lambda>res p. res \<lparr> cx := nadd (cx res) (cx p),
                                             cy := nadd (cy res) (cy p),
                                             cz := nadd (cz res) (cz p) \<rparr>) acc qs))
       \<and> isFinite (cy (foldl (\<lambda>res p. res \<lparr> cx := nadd (cx res) (cx p),
                                             cy := nadd (cy res) (cy p),
                                             cz := nadd (cz res) (cz p) \<rparr>) acc qs))
       \<and> isFinite (cz (foldl (\<lambda>res p. res \<lparr> cx := nadd (cx res) (cx p),
                                             cy := nadd (cy res) (cy p),
                                             cz := nadd (cz res) (cz p) \<rparr>) acc qs))"
  using assms
proof (induction qs arbitrary: acc)
  case Nil
  then show ?case by simp
next
  case (Cons q qs)
  show ?case
    unfolding foldl_Cons
    by (rule Cons.IH) (use Cons.prems in \<open>auto simp add: isFinite_iff\<close>)
qed

lemma toCenteringArray_finite:
  assumes "\<forall>p \<in> set ps. isFinite (lat p) \<and> isFinite (lng p)"
  shows "\<forall>q \<in> set (toCenteringArray ps). isFinite (cx q) \<and> isFinite (cy q) \<and> isFinite (cz q)"
  using assms by (auto simp add: toCenteringArray_def Let_def isFinite_iff toRadians_Fin)

lemma cartesianToRadians_finite:
  assumes "isFinite (cx v) \<and> isFinite (cy v) \<and> isFinite (cz v)"
  shows "isFinite (lat (cartesianToRadians v)) \<and> isFinite (lng (cartesianToRadians v))"
  using assms by (auto simp add: cartesianToRadians_def isFinite_iff)

lemma computeAverageCoordinates_finite:
  assumes "\<forall>q \<in> set qs. isFinite (cx q) \<and> isFinite (cy q) \<and> isFinite (cz q)"
  shows "isFinite (lat (computeAverageCoordinates qs)) \<and> isFinite (lng (computeAverageCoordinates qs))"
proof (cases "qs = []")
  case True
  then show ?thesis by (simp add: computeAverageCoordinates_def)
next
  case False
  let ?z = "\<lparr> lat = Fin 0, lng = Fin 0, cx = Fin 0, cy = Fin 0, cz = Fin 0 \<rparr>"
  let ?s = "foldl (\<lambda>res p. res \<lparr> cx := nadd (cx res) (cx p),
                                 cy := nadd (cy res) (cy p),
                                 cz := nadd (cz res) (cz p) \<rparr>) ?z qs"
  have s: "isFinite (cx ?s) \<and> isFinite (cy ?s) \<and> isFinite (cz ?s)"
    by (rule summed_finite [OF assms]) simp
  have n: "real (length qs) \<noteq> 0" using False by simp
  have "isFinite (cx (?s \<lparr> cx := ndiv (cx ?s) (Fin (real (length qs))),
                           cy := ndiv (cy ?s) (Fin (real (length qs))),
                           cz := ndiv (cz ?s) (Fin (real (length qs))) \<rparr>))
      \<and> isFinite (cy (?s \<lparr> cx := ndiv (cx ?s) (Fin (real (length qs))),
                           cy := ndiv (cy ?s) (Fin (real (length qs))),
                           cz := ndiv (cz ?s) (Fin (real (length qs))) \<rparr>))
      \<and> isFinite (cz (?s \<lparr> cx := ndiv (cx ?s) (Fin (real (length qs))),
                           cy := ndiv (cy ?s) (Fin (real (length qs))),
                           cz := ndiv (cz ?s) (Fin (real (length qs))) \<rparr>))"
    using s n by (auto simp add: isFinite_iff)
  from cartesianToRadians_finite [OF this] False
  show ?thesis by (simp add: computeAverageCoordinates_def Let_def)
qed

lemma nlt_trans: "nlt a b \<Longrightarrow> nlt b c \<Longrightarrow> nlt a c"
  by (cases a; cases b; cases c) simp_all

lemma improvesOn_refl: "improvesOn a a"
  by (simp add: improvesOn_def)

lemma improvesOn_trans: "improvesOn a b \<Longrightarrow> improvesOn b c \<Longrightarrow> improvesOn a c"
  by (auto simp add: improvesOn_def intro: nlt_trans)

lemma candidates_fold_improves:
  "improvesOn
     (totalDist (foldl (\<lambda>result cp.
              let dist = sumRadianDistance cp points
              in if nlt dist (totalDist result)
                 then result \<lparr> point := \<lparr> lat = lat cp, lng = lng cp \<rparr>, totalDist := dist \<rparr>
                 else result) acc candidates))
     (totalDist acc)"
proof (induction candidates arbitrary: acc)
  case Nil
  show ?case by (simp add: improvesOn_refl)
next
  case (Cons cp cs)
  let ?acc1 = "let dist = sumRadianDistance cp points
     in if nlt dist (totalDist acc)
        then acc \<lparr> point := \<lparr> lat = lat cp, lng = lng cp \<rparr>, totalDist := dist \<rparr>
        else acc"
  have "improvesOn (totalDist ?acc1) (totalDist acc)"
    by (simp add: Let_def improvesOn_def)
  with Cons.IH [of ?acc1] show ?case
    unfolding foldl_Cons by (rule improvesOn_trans)
qed

lemma testCandidateCenterPoints_improves:
  "improvesOn (totalDist (testCandidateCenterPoints candidates points existingBest))
     (totalDist existingBest)"
  unfolding testCandidateCenterPoints_def
  using candidates_fold_improves
    [of points "\<lparr> point = \<lparr> lat = lat (point existingBest), lng = lng (point existingBest) \<rparr>,
             avgDist = avgDist existingBest, totalDist = totalDist existingBest \<rparr>" candidates]
  by simp

lemma ringWhile_improves:
  assumes "ringWhile pCA testRadius currentBest cbd evals = Some y"
  shows "improvesOn (totalDist (fst y)) (totalDist currentBest)"
proof (rule ringWhile.raw_induct
    [where P = "\<lambda>pCA testRadius currentBest cbd evals y.
                  improvesOn (totalDist (fst y)) (totalDist currentBest)", OF _ assms],
    goal_cases)
  case (1 ringWhile' pCA testRadius currentBest cbd evals y)
  show ?case
  proof (cases "nlt (totalDist currentBest) cbd")
    case True
    with 1(2) have "ringWhile' pCA testRadius
        (testCandidateCenterPoints (candidatePts (point currentBest) testRadius) pCA currentBest)
        (totalDist currentBest)
        (evals + length (candidatePts (point currentBest) testRadius)) = Some y"
      by (simp add: Let_def)
    from 1(1) [OF this] testCandidateCenterPoints_improves
    show ?thesis by (rule improvesOn_trans)
  next
    case False
    with 1(2) show ?thesis by (auto simp add: improvesOn_refl)
  qed
qed

lemma radiusFor_improves:
  "radiusFor pCA r testRadius currentBest evals = Some y \<Longrightarrow>
     improvesOn (totalDist (fst y)) (totalDist currentBest)"
proof (induction pCA r testRadius currentBest evals rule: radiusFor.induct)
  case (1 pCA r testRadius currentBest evals)
  show ?case
  proof (cases "r < 17")
    case True
    from 1(2) True obtain cb1 ev1 where
      w: "ringWhile pCA testRadius currentBest (nadd (Fin 200000) (totalDist currentBest)) evals
            = Some (cb1, ev1)"
      and rec: "radiusFor pCA (r + 1) (ndiv testRadius (Fin 2)) cb1 ev1 = Some y"
      by (subst (asm) radiusFor.simps) (auto simp add: Let_def split: option.splits)
    have a: "improvesOn (totalDist (fst y)) (totalDist cb1)"
      by (rule 1(1) [OF True refl w refl rec])
    have b: "improvesOn (totalDist cb1) (totalDist currentBest)"
      using ringWhile_improves [OF w] by simp
    from a b show ?thesis by (rule improvesOn_trans)
  next
    case False
    with 1(2) show ?thesis
      by (subst (asm) radiusFor.simps) (auto simp add: improvesOn_refl)
  qed
qed

lemma Math_sqrt_shape: "Math_sqrt v = NaN \<or> nle (Fin 0) (Math_sqrt v)"
  by (cases v) simp_all

lemma Math_atan2_shape:
  assumes "y = NaN \<or> nle (Fin 0) y" and "x = NaN \<or> nle (Fin 0) x"
  shows "Math_atan2 y x = NaN \<or> nle (Fin 0) (Math_atan2 y x)"
  using assms by (cases y; cases x) (simp_all add: atan2_real_nonneg)

lemma nmul_two_shape:
  assumes "v = NaN \<or> nle (Fin 0) v"
  shows "nmul (Fin 2) v = NaN \<or> nle (Fin 0) (nmul (Fin 2) v)"
  using assms by (cases v) simp_all

lemma radianDistance_shape:
  "radianDistance pA pB = NaN \<or> nle (Fin 0) (radianDistance pA pB)"
  unfolding radianDistance_def Let_def
  by (intro nmul_two_shape Math_atan2_shape Math_sqrt_shape)

lemma nadd_shape:
  assumes "a = NaN \<or> nle (Fin 0) a" and "b = NaN \<or> nle (Fin 0) b"
  shows "nadd a b = NaN \<or> nle (Fin 0) (nadd a b)"
  using assms by (cases a; cases b) simp_all

lemma sum_fold_shape:
  assumes "acc = NaN \<or> nle (Fin 0) acc"
  shows "foldl (\<lambda>result toPoint. nadd result (radianDistance fromPoint toPoint)) acc toPoints = NaN
       \<or> nle (Fin 0)
            (foldl (\<lambda>result toPoint. nadd result (radianDistance fromPoint toPoint)) acc toPoints)"
  using assms
proof (induction toPoints arbitrary: acc)
  case Nil
  then show ?case by simp
next
  case (Cons q qs)
  have "nadd acc (radianDistance fromPoint q) = NaN
      \<or> nle (Fin 0) (nadd acc (radianDistance fromPoint q))"
    using Cons.prems radianDistance_shape [of fromPoint q] by (rule nadd_shape)
  from Cons.IH [OF this] show ?case by simp
qed

lemma not_negative: "v = NaN \<or> nle (Fin 0) v \<Longrightarrow> \<not> nlt v (Fin 0)"
  by (cases v) auto

lemma sumRadianDistance_not_negative: "\<not> nlt (sumRadianDistance fromPoint toPoints) (Fin 0)"
  unfolding sumRadianDistance_def
  by (rule not_negative [OF sum_fold_shape]) simp

lemma candidates_fold_zero:
  assumes "totalDist acc = Fin 0"
  shows "foldl (\<lambda>result cp.
              let dist = sumRadianDistance cp points
              in if nlt dist (totalDist result)
                 then result \<lparr> point := \<lparr> lat = lat cp, lng = lng cp \<rparr>, totalDist := dist \<rparr>
                 else result) acc candidates = acc"
  using assms
  by (induction candidates arbitrary: acc) (simp_all add: Let_def sumRadianDistance_not_negative)

lemma testCandidateCenterPoints_zero:
  assumes "totalDist existingBest = Fin 0"
  shows "testCandidateCenterPoints candidates points existingBest = existingBest"
  unfolding testCandidateCenterPoints_def
  by (subst candidates_fold_zero) (simp_all add: assms)

lemma length_candidatePts: "length (candidatePts center testRadius) = 8"
  by (simp add: candidatePts_def)

lemma ringWhile_zero:
  assumes z: "totalDist currentBest = Fin 0" and c: "nlt (Fin 0) cbd"
  shows "ringWhile pCA testRadius currentBest cbd evals = Some (currentBest, evals + 8)"
proof -
  have "ringWhile pCA testRadius currentBest cbd evals =
        ringWhile pCA testRadius currentBest (Fin 0) (evals + 8)"
    by (subst ringWhile.simps)
      (simp add: z c Let_def testCandidateCenterPoints_zero length_candidatePts)
  also have "\<dots> = Some (currentBest, evals + 8)"
    by (subst ringWhile.simps) (simp add: z)
  finally show ?thesis .
qed

lemma radiusFor_zero:
  assumes "totalDist currentBest = Fin 0"
  shows "radiusFor pCA r testRadius currentBest evals = Some (currentBest, evals + 8 * (17 - r))"
  using assms
proof (induction pCA r testRadius currentBest evals rule: radiusFor.induct)
  case (1 pCA r testRadius currentBest evals)
  show ?case
  proof (cases "r < 17")
    case True
    have w: "ringWhile pCA testRadius currentBest (nadd (Fin 200000) (totalDist currentBest)) evals
        = Some (currentBest, evals + 8)"
      by (rule ringWhile_zero) (simp_all add: "1.prems")
    have "radiusFor pCA (r + 1) (ndiv testRadius (Fin 2)) currentBest (evals + 8)
        = Some (currentBest, evals + 8 + 8 * (17 - (r + 1)))"
      by (rule "1.IH" [OF True refl w refl "1.prems"])
    with True w show ?thesis
      by (subst radiusFor.simps) (simp add: Let_def Suc_diff_Suc algebra_simps)
  next
    case False
    then show ?thesis by (subst radiusFor.simps) simp
  qed
qed

lemma computeMinimumDistancePoint_same_point:
  "computeMinimumDistancePoint_counted (constructor u)
     [\<lparr> lat = Fin 0, lng = Fin 0 \<rparr>, \<lparr> lat = Fin 0, lng = Fin 0 \<rparr>] =
   Some (\<lparr> point = \<lparr> lat = Fin 0, lng = Fin 0 \<rparr>, avgDist = Fin 0, totalDist = Fin 0 \<rparr>, 139)"
proof -
  let ?pts = "[\<lparr> lat = Fin 0, lng = Fin 0 \<rparr>, \<lparr> lat = Fin 0, lng = Fin 0 \<rparr>]"
  let ?q = "\<lparr> lat = Fin 0, lng = Fin 0, cx = Fin 1, cy = Fin 0, cz = Fin 0 \<rparr>"
  have pCA: "toCenteringArray ?pts = [?q, ?q]"
    by (simp add: toCenteringArray_def Let_def toRadians_Fin)
  have mid: "computeAverageCoordinates [?q, ?q] = ?q"
    by (simp add: computeAverageCoordinates_def Let_def cartesianToRadians_def atan2_real_def)
  have rd: "radianDistance ?q ?q = Fin 0"
    by (simp add: radianDistance_def Let_def nsub_Fin atan2_real_def)
  have sm: "sumRadianDistance ?q [?q, ?q] = Fin 0"
    by (simp add: sumRadianDistance_def rd)
  let ?cb = "\<lparr> point = \<lparr> lat = Fin 0, lng = Fin 0 \<rparr>, avgDist = Fin 0, totalDist = Fin 0 \<rparr>"
  have rf: "radiusFor [?q, ?q] 0 (ndiv Math_PI (Fin 2)) ?cb (Suc (Suc (Suc 0))) = Some (?cb, 139)"
    using radiusFor_zero [of ?cb "[?q, ?q]" 0 "ndiv Math_PI (Fin 2)" 3]
    by (simp add: numeral_3_eq_3)
  obtain R where R: "earthRadius (constructor u) = Fin R" "0 < R"
    using constructor_radius_positive by blast
  show ?thesis
    unfolding computeMinimumDistancePoint_counted_def Let_def pCA mid sm
    by (simp add: Ilatlng.truncate_def testCandidateCenterPoints_zero rf
        geoToDegrees_def toDegrees_Fin R)
qed

lemma scaled_improvement:
  assumes "improvesOn t (Fin S)" and "0 < R"
  shows "nle (nmul t (Fin R)) (Fin (R * S))"
  using assms by (cases t) (auto simp add: improvesOn_def mult.commute)

lemma computeMinimumDistancePoint_total:
  assumes len: "2 \<le> length points"
    and res: "computeMinimumDistancePoint this points = Some res"
  shows "\<exists>cb :: IdistanceCenterResult. improvesOn (totalDist cb)
           (sumRadianDistance (computeAverageCoordinates (toCenteringArray points))
              (toCenteringArray points))
         \<and> totalDist res = nmul (totalDist cb) (earthRadius this)"
proof -
  let ?pCA = "toCenteringArray points"
  let ?mid = "computeAverageCoordinates ?pCA"
  let ?cb0 = "\<lparr> point = Ilatlng.truncate ?mid, avgDist = Fin 0,
                 totalDist = sumRadianDistance ?mid ?pCA \<rparr>"
  let ?cb1 = "testCandidateCenterPoints ?pCA ?pCA ?cb0"
  from len have l: "length points \<noteq> 0" "length points \<noteq> 1" by auto
  from res l obtain cb ev where
    rf: "radiusFor ?pCA 0 (ndiv Math_PI (Fin 2)) ?cb1 (1 + length ?pCA) = Some (cb, ev)"
    and td: "totalDist res = nmul (totalDist cb) (earthRadius this)"
    unfolding computeMinimumDistancePoint_def computeMinimumDistancePoint_counted_def Let_def
    by (auto split: option.splits)
  have a: "improvesOn (totalDist cb) (totalDist ?cb1)"
    using radiusFor_improves [OF rf] by simp
  have b: "improvesOn (totalDist ?cb1) (totalDist ?cb0)"
    by (rule testCandidateCenterPoints_improves)
  from a b have "improvesOn (totalDist cb) (totalDist ?cb0)" by (rule improvesOn_trans)
  then have "improvesOn (totalDist cb) (sumRadianDistance ?mid ?pCA)" by simp
  with td show ?thesis by blast
qed

text \<open>
  In exact arithmetic, for a list of points with finite coordinates, whenever
  \<open>computeMinimumDistancePoint\<close> returns, its \<open>totalDist\<close> is at most the sum of the
  distances, on the same instance, from \<open>computeMidpoint\<close> of the list to every point
  of the list: the search starts at the midpoint and replaces its best point only by one
  with a strictly smaller sum. Nothing is said of a search that does not return, and
  nothing of doubles, where the two sides are rounded in different orders.
\<close>

lemma search_not_above_midpoint_exact:
  assumes fin: "\<forall>p \<in> set points. isFinite (lat p) \<and> isFinite (lng p)"
    and res: "computeMinimumDistancePoint (constructor u) points = Some res"
  shows "nle (totalDist res)
           (foldl (\<lambda>acc p. nadd acc (distance (constructor u) (computeMidpoint points) p))
              (Fin 0) points)"
proof -
  let ?eng = "constructor u"
  let ?pCA = "toCenteringArray points"
  let ?mid = "computeAverageCoordinates ?pCA"
  obtain R where R: "earthRadius ?eng = Fin R" "0 < R"
    using constructor_radius_positive by blast
  have "isFinite (lat ?mid) \<and> isFinite (lng ?mid)"
    by (rule computeAverageCoordinates_finite [OF toCenteringArray_finite [OF fin]])
  then obtain p1 l1 where m: "lat ?mid = Fin p1" "lng ?mid = Fin l1"
    by (auto simp add: isFinite_iff)
  have md: "lat (computeMidpoint points) = Fin (p1 * 180 / pi)"
    "lng (computeMidpoint points) = Fin (l1 * 180 / pi)"
    by (simp_all add: computeMidpoint_def geoToDegrees_def m toDegrees_Fin)
  from sums_agree [OF R(1) m md fin, of 0 0]
  obtain S where S: "0 \<le> S" "sumRadianDistance ?mid ?pCA = Fin S"
    "foldl (\<lambda>acc p. nadd acc (distance ?eng (computeMidpoint points) p)) (Fin 0) points
       = Fin (R * S)"
    by (auto simp add: sumRadianDistance_def)
  have nonneg: "0 \<le> R * S" using R(2) S(1) by simp
  show ?thesis
  proof (cases "2 \<le> length points")
    case True
    from computeMinimumDistancePoint_total [OF True res]
    obtain cb :: IdistanceCenterResult where "improvesOn (totalDist cb) (Fin S)"
      and "totalDist res = nmul (totalDist cb) (Fin R)"
      unfolding S(2) R(1) by blast
    then show ?thesis using scaled_improvement [of "totalDist cb" S R] R(2) by (simp add: S(3))
  next
    case False
    then consider "points = []" | p where "points = [p]"
      by (cases points; cases "tl points") auto
    then have "totalDist res = Fin 0"
    proof cases
      case 1
      with res show ?thesis
        by (auto simp add: computeMinimumDistancePoint_def
            computeMinimumDistancePoint_counted_def Let_def)
    next
      case 2
      with res show ?thesis
        by (auto simp add: computeMinimumDistancePoint_def
            computeMinimumDistancePoint_counted_def Let_def)
    qed
    then show ?thesis using nonneg by (simp add: S(3))
  qed
qed

subsection \<open>The search on doubles\<close>


















end
